theory Spec2Isabelle
  imports Complex_Main "HOL-Library.Log_Nat"
begin

section \<open>Data model\<close>

text \<open>
  The types of \<^verbatim>\<open>types.ts\<close> as the two source files use them. An \<^verbatim>\<open>ImageFile\<close> has the
  three fields that \<^verbatim>\<open>processImageTo9x16\<close> fills in; \<open>base64\<close> is \<open>None\<close> when that
  function stores \<^verbatim>\<open>undefined\<close> there (a data URL without a comma). An \<^verbatim>\<open>AspectRatio\<close> is
  one of the strings \<^verbatim>\<open>'9:16'\<close>, \<^verbatim>\<open>'16:9'\<close>, \<^verbatim>\<open>'1:1'\<close> and stays a string here, so that
  the \<^verbatim>\<open>default\<close> branch of the switch over it is a branch of the model.
\<close>

record ImageFile =
  base64 :: "string option"
  mimeType :: string
  previewUrl :: string

type_synonym AspectRatio = string

text \<open>
  What a JavaScript \<^verbatim>\<open>throw\<close> or a rejected promise carries: an \<^verbatim>\<open>Error\<close> with its message,
  the \<^verbatim>\<open>TypeError\<close> of the runtime for a property read on \<^verbatim>\<open>undefined\<close> (or for iterating
  \<^verbatim>\<open>undefined\<close>), and a rejection of the external call.
\<close>

datatype js_error = Error string | TypeError | Rejected string

subsection \<open>Requests and responses of the image service\<close>

text \<open>
  The shapes the code builds and reads. A part carries inline data or text; in a
  response every level the code dereferences (\<^verbatim>\<open>candidates\<close>, \<^verbatim>\<open>[0]\<close>, \<^verbatim>\<open>content\<close>,
  \<^verbatim>\<open>parts\<close>) may be missing, which JavaScript reads as \<^verbatim>\<open>undefined\<close>, and so may the
  two fields of the inline data.
\<close>

datatype Blob = Blob (blob_data: "string option") (blob_mimeType: "string option")

datatype Part = Part (inlineData: "Blob option") (part_text: "string option")

datatype Content = Content (parts: "Part list option")

datatype Candidate = Candidate (content: "Content option")

datatype Response = Response (candidates: "Candidate list option")

datatype Modality = IMAGE | TEXT

record Request =
  model :: string
  contents :: Content
  responseModalities :: "Modality list"

text \<open>
  The external service is a parameter: it answers a request from its own state
  \<open>'w\<close>, either with a response or with a rejection, and moves to a new state. Nothing
  is assumed about it.
\<close>

type_synonym 'w service = "'w \<Rightarrow> Request \<Rightarrow> (js_error + Response) \<times> 'w"

text \<open>
  What an observer sees of a run, in the order it happens: a request leaving for the
  service, the settling of that request, and a call of the progress callback. Each event
  is paired with the state of the callback's owner right after it.
\<close>

datatype event =
  Requested Request
| Responded "js_error + Response"
| Progressed string

section \<open>The generation service (geminiService.ts)\<close>

definition POSES_PROMPTS :: "string list" where
  "POSES_PROMPTS =
    [''hugging the doll tightly while standing, full body shot.'',
     ''sitting on a fluffy rug on the floor, joyfully embracing the doll.'',
     ''in a close-up shot, smiling warmly while hugging the doll.'',
     ''playfully trying to lift the oversized doll off the ground while hugging it.'',
     ''peeking over the top of the jumbo doll while hugging it from behind.'',
     ''lying on a cozy bed, cuddling with the jumbo doll.'']"

definition getRatioDescription :: "AspectRatio \<Rightarrow> string" where
  "getRatioDescription ratio =
    (if ratio = ''16:9'' then ''horizontal 16:9 landscape''
     else if ratio = ''1:1'' then ''square 1:1''
     else ''vertical 9:16 portrait'')"

definition nl :: string where
  "nl = [CHR 0x0A]"

definition textPrompt :: "string \<Rightarrow> string \<Rightarrow> AspectRatio \<Rightarrow> string" where
  "textPrompt posePrompt bg ratio =
    ''Generate a single, photorealistic, promotional-quality image.'' @ nl @
    nl @
    ''**Primary Directive: The output image's aspect ratio MUST BE a '' @
      getRatioDescription ratio @
      ''. This is a strict, non-negotiable requirement.**'' @ nl @
    nl @
    ''**Image Content:**'' @ nl @
    ''- **Person:** Must be the *exact same person* from the first input image.'' @ nl @
    ''- **Doll:** Must be the *exact same jumbo doll* from the second input image.'' @ nl @
    ''- **Action:** The person is '' @ posePrompt @ ''.'' @ nl @
    ''- **Background:** The setting is a **'' @ bg @ ''**.'' @ nl @
    nl @
    ''**Artistic Style & Constraints:**'' @ nl @
    ''- **Realism:** The doll must appear very large and plush. The lighting should be soft and warm, creating a cozy and inviting atmosphere.'' @ nl @
    ''- **Consistency:** Maintain the precise appearance of the person and the doll from the source images.'' @ nl @
    ''- **Quality:** The final image must be high-resolution and suitable for professional promotional use.'' @ nl @
    ''- **Format:** Output only the image data.''"

definition pose_request :: "ImageFile \<Rightarrow> ImageFile \<Rightarrow> string \<Rightarrow> AspectRatio \<Rightarrow> string \<Rightarrow> Request" where
  "pose_request modelImage dollImage bg ratio posePrompt =
    \<lparr> model = ''gemini-2.5-flash-image'',
      contents = Content (Some
        [Part (Some (Blob (base64 modelImage) (Some (mimeType modelImage)))) None,
         Part (Some (Blob (base64 dollImage) (Some (mimeType dollImage)))) None,
         Part None (Some (textPrompt posePrompt bg ratio))]),
      responseModalities = [IMAGE] \<rparr>"

text \<open>
  \<^verbatim>\<open>response.candidates[0].content.parts\<close>: each read on \<^verbatim>\<open>undefined\<close> throws a
  \<^verbatim>\<open>TypeError\<close>, and so does \<^verbatim>\<open>for ... of\<close> over \<^verbatim>\<open>undefined\<close>.
\<close>

definition first_candidate_parts :: "Response \<Rightarrow> js_error + Part list" where
  "first_candidate_parts response =
    (case candidates response of
       None \<Rightarrow> Inl TypeError
     | Some [] \<Rightarrow> Inl TypeError
     | Some (c # _) \<Rightarrow>
         (case content c of
            None \<Rightarrow> Inl TypeError
          | Some ct \<Rightarrow>
              (case parts ct of
                 None \<Rightarrow> Inl TypeError
               | Some ps \<Rightarrow> Inr ps)))"

definition NO_IMAGE :: string where
  "NO_IMAGE = ''Image generation failed, no image data returned.''"

text \<open>A value inside a template literal: \<^verbatim>\<open>undefined\<close> prints as the word.\<close>

definition interpolate :: "string option \<Rightarrow> string" where
  "interpolate v = (case v of None \<Rightarrow> ''undefined'' | Some str \<Rightarrow> str)"

text \<open>The loop over the parts, and the \<^verbatim>\<open>throw\<close> after it.\<close>

fun first_inline :: "Part list \<Rightarrow> js_error + string" where
  "first_inline [] = Inl (Error NO_IMAGE)"
| "first_inline (p # ps) =
    (case inlineData p of
       Some b \<Rightarrow>
         Inr (''data:'' @ interpolate (blob_mimeType b) @ '';base64,'' @ interpolate (blob_data b))
     | None \<Rightarrow> first_inline ps)"

definition extract_image :: "Response \<Rightarrow> js_error + string" where
  "extract_image response =
    (case first_candidate_parts response of
       Inl e \<Rightarrow> Inl e
     | Inr ps \<Rightarrow> first_inline ps)"

text \<open>What one settled request means for the caller: the awaited rejection, or the extraction.\<close>

definition settle :: "js_error + Response \<Rightarrow> js_error + string" where
  "settle out = (case out of Inl e \<Rightarrow> Inl e | Inr response \<Rightarrow> extract_image response)"

text \<open>
  \<^verbatim>\<open>generateSingleImage\<close>: one request, awaited, then the extraction. It returns the
  data URL or the error, the service's new state, and the two events of the call.
\<close>

definition generateSingleImage ::
  "'w service \<Rightarrow> ImageFile \<Rightarrow> ImageFile \<Rightarrow> string \<Rightarrow> string \<Rightarrow> AspectRatio \<Rightarrow> 'w
    \<Rightarrow> (js_error + string) \<times> 'w \<times> event list" where
  "generateSingleImage svc modelImage dollImage posePrompt bg ratio w =
    (let req = pose_request modelImage dollImage bg ratio posePrompt;
         (out, w') = svc w req
     in (settle out, w', [Requested req, Responded out]))"

text \<open>
  The result of a run: what the promise settles to, the service's state, the state of
  the callback's owner, and the events in order.
\<close>

record ('w, 's) run =
  run_result :: "js_error + string list"
  run_world :: 'w
  run_sink :: 's
  run_events :: "(event \<times> 's) list"

text \<open>
  The \<^verbatim>\<open>for ... of\<close> loop of \<^verbatim>\<open>generatePromotionalImages\<close> over the remaining prompts,
  with \<^verbatim>\<open>allGeneratedImages\<close> as the accumulator. A thrown error leaves the loop at once.
\<close>

fun poses_loop ::
  "'w service \<Rightarrow> ImageFile \<Rightarrow> ImageFile \<Rightarrow> string \<Rightarrow> AspectRatio \<Rightarrow> (string \<Rightarrow> 's \<Rightarrow> 's)
    \<Rightarrow> string list \<Rightarrow> string list \<Rightarrow> 'w \<Rightarrow> 's \<Rightarrow> ('w, 's) run" where
  "poses_loop svc modelImage dollImage bg ratio onProgress [] allGeneratedImages w s =
    \<lparr> run_result = Inr allGeneratedImages, run_world = w, run_sink = s, run_events = [] \<rparr>"
| "poses_loop svc modelImage dollImage bg ratio onProgress (prompt # rest) allGeneratedImages w s =
    (case generateSingleImage svc modelImage dollImage prompt bg ratio w of
       (Inl e, w', evs) \<Rightarrow>
         \<lparr> run_result = Inl e, run_world = w', run_sink = s,
           run_events = map (\<lambda>ev. (ev, s)) evs \<rparr>
     | (Inr imageUrl, w', evs) \<Rightarrow>
         (let s' = onProgress imageUrl s;
              r = poses_loop svc modelImage dollImage bg ratio onProgress rest
                    (allGeneratedImages @ [imageUrl]) w' s'
          in r \<lparr> run_events :=
                  map (\<lambda>ev. (ev, s)) evs @ (Progressed imageUrl, s') # run_events r \<rparr>))"

definition generatePromotionalImages ::
  "'w service \<Rightarrow> ImageFile \<Rightarrow> ImageFile \<Rightarrow> string \<Rightarrow> AspectRatio \<Rightarrow> (string \<Rightarrow> 's \<Rightarrow> 's)
    \<Rightarrow> 'w \<Rightarrow> 's \<Rightarrow> ('w, 's) run" where
  "generatePromotionalImages svc modelImage dollImage bg ratio onProgress w s =
    poses_loop svc modelImage dollImage bg ratio onProgress POSES_PROMPTS [] w s"

section \<open>The application state and the Generate action (App.tsx)\<close>

text \<open>
  The \<^verbatim>\<open>useState\<close> cells of the component. Every setter call of the source is a record
  update here; a functional update \<^verbatim>\<open>set(prev => f(prev))\<close> is \<open>f\<close> applied to the
  field.
\<close>

record AppState =
  modelImage :: "ImageFile option"
  dollImage :: "ImageFile option"
  background :: string
  aspectRatio :: AspectRatio
  generatedImages :: "string list"
  isLoading :: bool
  error :: "string option"
  generationProgress :: nat

definition MISSING_INPUT :: string where
  "MISSING_INPUT = ''Please upload both a model and a doll image.''"

definition GENERATION_FAILED :: string where
  "GENERATION_FAILED =
    ''Image generation failed. This might be due to API rate limits. Please wait a moment and try again.''"

definition onProgress :: "string \<Rightarrow> AppState \<Rightarrow> AppState" where
  "onProgress imageUrl a =
    a \<lparr> generatedImages := generatedImages a @ [imageUrl],
        generationProgress := generationProgress a + 1 \<rparr>"

text \<open>
  \<^verbatim>\<open>handleGenerate\<close>: the guard, the four setter calls that open a run, the awaited
  call inside \<^verbatim>\<open>try\<close>, the \<^verbatim>\<open>catch\<close> that sets the message whatever was thrown, and
  the \<^verbatim>\<open>finally\<close> block.
\<close>

definition handleGenerate ::
  "'w service \<Rightarrow> 'w \<Rightarrow> AppState \<Rightarrow> 'w \<times> AppState \<times> (event \<times> AppState) list" where
  "handleGenerate svc w a =
    (if modelImage a = None \<or> dollImage a = None then
       (w, a \<lparr> error := Some MISSING_INPUT \<rparr>, [])
     else
       (let a1 = a \<lparr> isLoading := True, error := None,
                      generatedImages := [], generationProgress := 0 \<rparr>;
            r = generatePromotionalImages svc (the (modelImage a)) (the (dollImage a))
                  (background a) (aspectRatio a) onProgress w a1;
            a2 = (case run_result r of
                    Inl err \<Rightarrow> (run_sink r) \<lparr> error := Some GENERATION_FAILED \<rparr>
                  | Inr urls \<Rightarrow> run_sink r)
        in (run_world r, a2 \<lparr> isLoading := False, generationProgress := 0 \<rparr>, run_events r)))"

text \<open>The state after the four setter calls that open a run.\<close>

definition run_start :: "AppState \<Rightarrow> AppState" where
  "run_start a =
    a \<lparr> isLoading := True, error := None, generatedImages := [], generationProgress := 0 \<rparr>"

section \<open>Numbers\<close>

text \<open>
  A JavaScript number is an IEEE 754 binary64 value. The finite ones are rationals, and an
  arithmetic operation returns the exact result rounded to the nearest value with a 53-bit
  significand, ties to the even significand. The exponent range is not bounded here, and
  zero has no sign: the program divides and multiplies widths and heights of images, which
  the DOM gives as unsigned 32-bit integers, by constants, so no result overflows,
  underflows or depends on the sign of a zero.

  \<open>expo x\<close> is the exponent of the binade of a positive \<open>x\<close>, the integer \<open>e\<close> with
  \<open>2 powi e \<le> x < 2 powi (e + 1)\<close>, computed from the bit length of the integer part (of
  the reciprocal, below one); \<open>ulp x\<close> is the spacing of the binary64 values in that
  binade, \<open>rne\<close> rounds to the nearest integer with ties to even, and \<open>fl\<close> rounds a
  rational to binary64.
\<close>

definition expo :: "rat \<Rightarrow> int" where
  "expo x = (if 1 \<le> x then bitlen \<lfloor>x\<rfloor> - 1 else - bitlen (\<lceil>1 / x\<rceil> - 1))"

definition ulp :: "rat \<Rightarrow> rat" where
  "ulp x = 2 powi (expo x - 52)"

definition rne :: "rat \<Rightarrow> int" where
  "rne y =
    (let f = \<lfloor>y\<rfloor>; r = y - of_int f
     in if r < 1 / 2 then f
        else if 1 / 2 < r then f + 1
        else if even f then f else f + 1)"

definition fl :: "rat \<Rightarrow> rat" where
  "fl x =
    (if x = 0 then 0
     else if 0 < x then of_int (rne (x / ulp x)) * ulp x
     else - (of_int (rne (- x / ulp (- x))) * ulp (- x)))"

text \<open>
  The values of a number, and the four operations the program uses, with the results IEEE
  754 gives them at zero, at the infinities and at NaN.
\<close>

datatype double = Fin rat | PInf | NInf | NaN

fun fdiv :: "double \<Rightarrow> double \<Rightarrow> double" where
  "fdiv (Fin a) (Fin b) =
    (if b \<noteq> 0 then Fin (fl (a / b))
     else if a = 0 then NaN else if 0 < a then PInf else NInf)"
| "fdiv (Fin a) PInf = Fin 0"
| "fdiv (Fin a) NInf = Fin 0"
| "fdiv PInf (Fin b) = (if 0 \<le> b then PInf else NInf)"
| "fdiv NInf (Fin b) = (if 0 \<le> b then NInf else PInf)"
| "fdiv a b = NaN"

fun fmul :: "double \<Rightarrow> double \<Rightarrow> double" where
  "fmul (Fin a) (Fin b) = Fin (fl (a * b))"
| "fmul (Fin a) PInf = (if a = 0 then NaN else if 0 < a then PInf else NInf)"
| "fmul (Fin a) NInf = (if a = 0 then NaN else if 0 < a then NInf else PInf)"
| "fmul PInf (Fin b) = (if b = 0 then NaN else if 0 < b then PInf else NInf)"
| "fmul NInf (Fin b) = (if b = 0 then NaN else if 0 < b then NInf else PInf)"
| "fmul PInf PInf = PInf"
| "fmul PInf NInf = NInf"
| "fmul NInf PInf = NInf"
| "fmul NInf NInf = PInf"
| "fmul a b = NaN"

fun fsub :: "double \<Rightarrow> double \<Rightarrow> double" where
  "fsub (Fin a) (Fin b) = Fin (fl (a - b))"
| "fsub (Fin a) PInf = NInf"
| "fsub (Fin a) NInf = PInf"
| "fsub PInf (Fin b) = PInf"
| "fsub NInf (Fin b) = NInf"
| "fsub PInf NInf = PInf"
| "fsub NInf PInf = NInf"
| "fsub a b = NaN"

fun fgt :: "double \<Rightarrow> double \<Rightarrow> bool" where
  "fgt (Fin a) (Fin b) = (b < a)"
| "fgt PInf (Fin b) = True"
| "fgt PInf NInf = True"
| "fgt (Fin a) NInf = True"
| "fgt a b = False"

section \<open>The image normalizer and the upload (App.tsx)\<close>

text \<open>
  The arithmetic of \<^verbatim>\<open>processImageTo9x16\<close> between the black fill and \<^verbatim>\<open>drawImage\<close>: the
  aspect ratio of the image, the two branches that fit it to the width or to the height
  of the canvas, and the origin that centres it.
\<close>

record rect =
  draw_x :: double
  draw_y :: double
  drawWidth :: double
  drawHeight :: double

definition targetAspectRatio :: double where
  "targetAspectRatio = fdiv (Fin 9) (Fin 16)"

definition canvasWidth :: double where
  "canvasWidth = Fin 720"

definition canvasHeight :: double where
  "canvasHeight = Fin 1280"

definition draw_rect :: "nat \<Rightarrow> nat \<Rightarrow> rect" where
  "draw_rect width height =
    (let imageAspectRatio = fdiv (Fin (of_nat width)) (Fin (of_nat height));
         (dw, dh) =
           (if fgt imageAspectRatio targetAspectRatio
            then (canvasWidth, fdiv canvasWidth imageAspectRatio)
            else (fmul canvasHeight imageAspectRatio, canvasHeight));
         x = fdiv (fsub canvasWidth dw) (Fin 2);
         y = fdiv (fsub canvasHeight dh) (Fin 2)
     in \<lparr> draw_x = x, draw_y = y, drawWidth = dw, drawHeight = dh \<rparr>)"

text \<open>
  What the browser does is a parameter of the model: reading a file as a data URL
  (\<open>None\<close> when \<^verbatim>\<open>onerror\<close> fires), loading a data URL into an image, which gives its
  width and height (\<open>None\<close> when \<^verbatim>\<open>onerror\<close> fires), whether the canvas gives a 2D
  context, and the encoding of a canvas as a data URL. A canvas is its size and what was
  painted on it, in order.
\<close>

record File =
  file_type :: string
  file_data :: string

datatype paint =
  FillRect string double double double double
| DrawImage string double double double double

record canvas =
  canvas_width :: nat
  canvas_height :: nat
  painted :: "paint list"

record browser =
  readAsDataURL :: "File \<Rightarrow> string option"
  load_image :: "string \<Rightarrow> (nat \<times> nat) option"
  context_2d :: bool
  toDataURL :: "canvas \<Rightarrow> string \<Rightarrow> double \<Rightarrow> string"

text \<open>\<^verbatim>\<open>str.split(c)\<close> for a one-character separator, and an array read that may be out of range.\<close>

fun split_on :: "char \<Rightarrow> string \<Rightarrow> string list" where
  "split_on c [] = [[]]"
| "split_on c (x # xs) =
    (if x = c then [] # split_on c xs
     else (case split_on c xs of
             [] \<Rightarrow> [[x]]
           | y # ys \<Rightarrow> (x # y) # ys))"

definition nth_opt :: "'a list \<Rightarrow> nat \<Rightarrow> 'a option" where
  "nth_opt xs i = (if i < length xs then Some (xs ! i) else None)"

text \<open>
  \<^verbatim>\<open>processImageTo9x16\<close>. The promise rejects only with \<^verbatim>\<open>new Error(message)\<close>; the left
  side of the result is that message.
\<close>

definition processImageTo9x16 :: "browser \<Rightarrow> string \<Rightarrow> string \<Rightarrow> string + ImageFile" where
  "processImageTo9x16 br dataUrl mime =
    (case load_image br dataUrl of
       None \<Rightarrow> Inl ''Could not load image for processing.''
     | Some (width, height) \<Rightarrow>
         if \<not> context_2d br then Inl ''Could not get canvas context''
         else
           (let r = draw_rect width height;
                cv = \<lparr> canvas_width = 720, canvas_height = 1280,
                       painted =
                         [FillRect ''black'' (Fin 0) (Fin 0) canvasWidth canvasHeight,
                          DrawImage dataUrl (draw_x r) (draw_y r) (drawWidth r) (drawHeight r)] \<rparr>;
                newDataUrl = toDataURL br cv mime (Fin (fl (95 / 100)))
            in Inr \<lparr> base64 = nth_opt (split_on CHR '','' newDataUrl) 1,
                     mimeType = mime,
                     previewUrl = newDataUrl \<rparr>))"

text \<open>
  \<^verbatim>\<open>fileHandler\<close>: the reader's \<^verbatim>\<open>onerror\<close>, or its \<^verbatim>\<open>onload\<close> with the \<^verbatim>\<open>try\<close> around
  the processing and the callback, and the \<^verbatim>\<open>catch\<close> that shows the message, or the
  fallback text when the message is empty.
\<close>

definition fileHandler ::
  "browser \<Rightarrow> File \<Rightarrow> (ImageFile \<Rightarrow> AppState \<Rightarrow> AppState) \<Rightarrow> AppState \<Rightarrow> AppState" where
  "fileHandler br file callback a =
    (case readAsDataURL br file of
       None \<Rightarrow> a \<lparr> error := Some ''Could not read the selected file.'' \<rparr>
     | Some originalDataUrl \<Rightarrow>
         (case processImageTo9x16 br originalDataUrl (file_type file) of
            Inr processedImage \<Rightarrow> callback processedImage a
          | Inl msg \<Rightarrow>
              a \<lparr> error := Some (if msg = [] then
                                     ''An unknown error occurred during image processing.''
                                   else msg) \<rparr>))"

definition setModelImage :: "ImageFile \<Rightarrow> AppState \<Rightarrow> AppState" where
  "setModelImage img a = a \<lparr> modelImage := Some img \<rparr>"

definition setDollImage :: "ImageFile \<Rightarrow> AppState \<Rightarrow> AppState" where
  "setDollImage img a = a \<lparr> dollImage := Some img \<rparr>"

text \<open>The two change handlers: the first selected file, if there is one, goes to its slot.\<close>

definition handleModelImageChange :: "browser \<Rightarrow> File list \<Rightarrow> AppState \<Rightarrow> AppState" where
  "handleModelImageChange br files a =
    (case files of [] \<Rightarrow> a | file # _ \<Rightarrow> fileHandler br file setModelImage a)"

definition handleDollImageChange :: "browser \<Rightarrow> File list \<Rightarrow> AppState \<Rightarrow> AppState" where
  "handleDollImageChange br files a =
    (case files of [] \<Rightarrow> a | file # _ \<Rightarrow> fileHandler br file setDollImage a)"

section \<open>Reading a run\<close>

text \<open>The requests of a run, the outcome of each, and the arguments of the callback, in order.\<close>

fun requests_of :: "(event \<times> 's) list \<Rightarrow> Request list" where
  "requests_of [] = []"
| "requests_of ((Requested q, t) # evs) = q # requests_of evs"
| "requests_of (ev # evs) = requests_of evs"

fun outcomes_of :: "(event \<times> 's) list \<Rightarrow> (js_error + string) list" where
  "outcomes_of [] = []"
| "outcomes_of ((Responded out, t) # evs) = settle out # outcomes_of evs"
| "outcomes_of (ev # evs) = outcomes_of evs"

fun progress_of :: "(event \<times> 's) list \<Rightarrow> string list" where
  "progress_of [] = []"
| "progress_of ((Progressed u, t) # evs) = u # progress_of evs"
| "progress_of (ev # evs) = progress_of evs"



text \<open>
  The states paired with the events are the states the callback produces: only a
  \<open>Progressed\<close> event changes the state, by one application of the callback.
\<close>

fun replays :: "(string \<Rightarrow> 's \<Rightarrow> 's) \<Rightarrow> 's \<Rightarrow> (event \<times> 's) list \<Rightarrow> bool" where
  "replays f s [] = True"
| "replays f s ((Progressed u, t) # evs) = (t = f u s \<and> replays f t evs)"
| "replays f s ((ev, t) # evs) = (t = s \<and> replays f s evs)"

section \<open>Sample inputs\<close>

text \<open>Concrete artifacts, responses, services and states on which the theorems are instantiated.\<close>

definition sample_model :: ImageFile where
  "sample_model =
    \<lparr> base64 = Some ''TU9ERUw='', mimeType = ''image/png'',
      previewUrl = ''data:image/png;base64,TU9ERUw='' \<rparr>"

definition sample_doll :: ImageFile where
  "sample_doll =
    \<lparr> base64 = Some ''RE9MTA=='', mimeType = ''image/jpeg'',
      previewUrl = ''data:image/jpeg;base64,RE9MTA=='' \<rparr>"

definition image_response :: Response where
  "image_response =
    Response (Some [Candidate (Some (Content (Some
      [Part None (Some ''Here is the image.''),
       Part (Some (Blob (Some ''UE9TRQ=='') (Some ''image/png''))) None])))])"

definition text_only_response :: Response where
  "text_only_response =
    Response (Some [Candidate (Some (Content (Some [Part None (Some ''Unable to comply.'')])))])"

definition no_candidates_response :: Response where
  "no_candidates_response = Response (Some [])"

text \<open>Two services that count their requests; the second answers the third without an image.\<close>

definition steady_service :: "nat service" where
  "steady_service n q = (Inr image_response, Suc n)"

definition third_pose_fails :: "nat service" where
  "third_pose_fails n q =
    (if n = 2 then Inr text_only_response else Inr image_response, Suc n)"

text \<open>A service whose every answer has an empty candidate list.\<close>

definition empty_answer_service :: "nat service" where
  "empty_answer_service n q = (Inr no_candidates_response, Suc n)"

definition ready_app :: AppState where
  "ready_app =
    \<lparr> modelImage = Some sample_model, dollImage = Some sample_doll,
      background = ''A cozy indoor living room with a comfortable sofa'',
      aspectRatio = ''9:16'',
      generatedImages = [''data:image/png;base64,T0xE''],
      isLoading = False, error = Some GENERATION_FAILED, generationProgress = 0 \<rparr>"

definition doll_missing_app :: AppState where
  "doll_missing_app = ready_app \<lparr> dollImage := None \<rparr>"

text \<open>
  A browser that reads every file, loads every image as 4000 by 2000, and encodes every
  canvas to the same PNG payload; one whose canvas gives no context; a file.
\<close>

definition sample_browser :: browser where
  "sample_browser =
    \<lparr> readAsDataURL = (\<lambda>file. Some (''data:'' @ file_type file @ '';base64,'' @ file_data file)),
      load_image = (\<lambda>url. Some (4000, 2000)),
      context_2d = True,
      toDataURL = (\<lambda>cv mime quality. ''data:image/png;base64,iVBORw0KGgo='') \<rparr>"

definition contextless_browser :: browser where
  "contextless_browser = sample_browser \<lparr> context_2d := False \<rparr>"

definition sample_file :: File where
  "sample_file = \<lparr> file_type = ''image/png'', file_data = ''UEhPVE8='' \<rparr>"

section \<open>The loop of the generation service\<close>

text \<open>
  One turn of the loop with the single call unfolded: the request goes out, its settling
  is awaited, and only a settling with an image reaches the callback and the next turn.
\<close>

lemma poses_loop_Cons:
  "poses_loop svc m d bg ar f (p # ps) acc w s =
    (case settle (fst (svc w (pose_request m d bg ar p))) of
       Inl e \<Rightarrow>
         \<lparr> run_result = Inl e, run_world = snd (svc w (pose_request m d bg ar p)), run_sink = s,
           run_events = [(Requested (pose_request m d bg ar p), s),
                         (Responded (fst (svc w (pose_request m d bg ar p))), s)] \<rparr>
     | Inr u \<Rightarrow>
         (poses_loop svc m d bg ar f ps (acc @ [u]) (snd (svc w (pose_request m d bg ar p))) (f u s))
           \<lparr> run_events :=
               (Requested (pose_request m d bg ar p), s)
               # (Responded (fst (svc w (pose_request m d bg ar p))), s)
               # (Progressed u, f u s)
               # run_events (poses_loop svc m d bg ar f ps (acc @ [u])
                              (snd (svc w (pose_request m d bg ar p))) (f u s)) \<rparr>)"
  by (simp add: generateSingleImage_def Let_def split: prod.splits sum.splits)


lemma loop_replays:
  "replays f s (run_events (poses_loop svc m d bg ar f ps acc w s))"
proof (induction ps arbitrary: acc w s)
  case Nil
  show ?case by simp
next
  case (Cons p ps)
  show ?case
    by (simp only: poses_loop_Cons) (simp add: Cons.IH split: sum.splits)
qed

lemma loop_outcomes:
  "outcomes_of (run_events (poses_loop svc m d bg ar f ps acc w s)) =
     map Inr (progress_of (run_events (poses_loop svc m d bg ar f ps acc w s))) @
     (case run_result (poses_loop svc m d bg ar f ps acc w s) of
        Inl e \<Rightarrow> [Inl e] | Inr urls \<Rightarrow> [])"
proof (induction ps arbitrary: acc w s)
  case Nil
  show ?case by simp
next
  case (Cons p ps)
  show ?case
    by (simp only: poses_loop_Cons) (simp add: Cons.IH split: sum.splits)
qed

lemma loop_requests:
  "requests_of (run_events (poses_loop svc m d bg ar f ps acc w s)) =
     map (pose_request m d bg ar)
       (take (Suc (length (progress_of (run_events (poses_loop svc m d bg ar f ps acc w s))))) ps)"
proof (induction ps arbitrary: acc w s)
  case Nil
  show ?case by simp
next
  case (Cons p ps)
  show ?case
    by (simp only: poses_loop_Cons) (simp add: Cons.IH split: sum.splits)
qed

lemma loop_sink:
  "run_sink (poses_loop svc m d bg ar f ps acc w s) =
     fold f (progress_of (run_events (poses_loop svc m d bg ar f ps acc w s))) s"
proof (induction ps arbitrary: acc w s)
  case Nil
  show ?case by simp
next
  case (Cons p ps)
  show ?case
    by (simp only: poses_loop_Cons) (simp add: Cons.IH split: sum.splits)
qed

lemma loop_progress_le:
  "length (progress_of (run_events (poses_loop svc m d bg ar f ps acc w s))) \<le> length ps"
proof (induction ps arbitrary: acc w s)
  case Nil
  show ?case by simp
next
  case (Cons p ps)
  show ?case
    by (simp only: poses_loop_Cons) (simp add: Cons.IH split: sum.splits)
qed

lemma loop_result:
  "run_result (poses_loop svc m d bg ar f ps acc w s) = Inr urls \<longleftrightarrow>
     urls = acc @ progress_of (run_events (poses_loop svc m d bg ar f ps acc w s)) \<and>
     length (progress_of (run_events (poses_loop svc m d bg ar f ps acc w s))) = length ps"
proof (induction ps arbitrary: acc w s)
  case Nil
  show ?case by auto
next
  case (Cons p ps)
  show ?case
    by (simp only: poses_loop_Cons) (simp add: Cons.IH split: sum.splits)
qed





lemma loop_result_cases:
  "(length (progress_of (run_events (poses_loop svc m d bg ar f ps acc w s))) = length ps \<and>
    run_result (poses_loop svc m d bg ar f ps acc w s) =
      Inr (acc @ progress_of (run_events (poses_loop svc m d bg ar f ps acc w s)))) \<or>
   (length (progress_of (run_events (poses_loop svc m d bg ar f ps acc w s))) < length ps \<and>
    (\<exists>e. run_result (poses_loop svc m d bg ar f ps acc w s) = Inl e))"
proof (cases "run_result (poses_loop svc m d bg ar f ps acc w s)")
  case (Inr urls)
  then show ?thesis using loop_result [of svc m d bg ar f ps acc w s urls] by simp
next
  case (Inl e)
  have "length (progress_of (run_events (poses_loop svc m d bg ar f ps acc w s))) \<noteq> length ps"
    using Inl loop_result [of svc m d bg ar f ps acc w s] by auto
  with loop_progress_le [of svc m d bg ar f ps acc w s] Inl show ?thesis by simp
qed

lemma poses_length: "length POSES_PROMPTS = 6"
  by (simp add: POSES_PROMPTS_def)

lemma six_poses: "\<exists>p0 p1 p2 p3 p4 p5. POSES_PROMPTS = [p0, p1, p2, p3, p4, p5]"
  by (simp add: POSES_PROMPTS_def)

lemmas run_eval =
  generatePromotionalImages_def generateSingleImage_def settle_def
  extract_image_def first_candidate_parts_def interpolate_def Let_def



section \<open>The Generate action\<close>

lemma fold_onProgress:
  "fold onProgress us a =
     a \<lparr> generatedImages := generatedImages a @ us,
         generationProgress := generationProgress a + length us \<rparr>"
  by (induction us arbitrary: a) (simp_all add: onProgress_def)

lemma replays_invariant:
  "replays f s evs \<Longrightarrow> P s \<Longrightarrow> (\<And>u t. P t \<Longrightarrow> P (f u t)) \<Longrightarrow> (ev, t) \<in> set evs \<Longrightarrow> P t"
  by (induction f s evs rule: replays.induct) auto

lemma replays_images:
  "replays onProgress s evs \<Longrightarrow> i < length evs \<Longrightarrow>
     generatedImages (snd (evs ! i)) = generatedImages s @ progress_of (take (Suc i) evs)"
proof (induction evs arbitrary: s i)
  case Nil
  then show ?case by simp
next
  case (Cons x evs)
  obtain ev t where x: "x = (ev, t)" by (cases x)
  show ?case
  proof (cases i)
    case 0
    with Cons.prems x show ?thesis
      by (cases ev) (simp_all add: onProgress_def)
  next
    case (Suc j)
    with Cons.prems x have j: "j < length evs" by simp
    show ?thesis
    proof (cases ev)
      case (Progressed u)
      with Cons.prems x have t: "t = onProgress u s" and "replays onProgress t evs"
        by auto
      from Cons.IH [OF this(2) j] Suc x Progressed t show ?thesis
        by (simp add: onProgress_def)
    next
      case (Requested q)
      with Cons.prems x have "replays onProgress s evs" by simp
      from Cons.IH [OF this j] Suc x Requested show ?thesis by simp
    next
      case (Responded out)
      with Cons.prems x have "replays onProgress s evs" by simp
      from Cons.IH [OF this j] Suc x Responded show ?thesis by simp
    qed
  qed
qed

lemma handleGenerate_run:
  assumes "modelImage a = Some m" and "dollImage a = Some d"
  shows "handleGenerate svc w a =
    (let r = generatePromotionalImages svc m d (background a) (aspectRatio a) onProgress w (run_start a)
     in (run_world r,
         (case run_result r of
            Inl err \<Rightarrow> (run_sink r) \<lparr> error := Some GENERATION_FAILED \<rparr>
          | Inr urls \<Rightarrow> run_sink r) \<lparr> isLoading := False, generationProgress := 0 \<rparr>,
         run_events r))"
  using assms by (simp add: handleGenerate_def run_start_def Let_def)

text \<open>
  C4. When the model image or the doll image is absent, Generate only sets the error to
  ``Please upload both a model and a doll image.'': no request is issued and the service is
  left as it was, and the image list, the progress counter and the loading flag keep their
  values.
\<close>

theorem handleGenerate_missing_input:
  assumes "modelImage a = None \<or> dollImage a = None"
  shows "handleGenerate svc w a = (w, a \<lparr> error := Some MISSING_INPUT \<rparr>, []) \<and>
         requests_of (snd (snd (handleGenerate svc w a))) = [] \<and>
         error (fst (snd (handleGenerate svc w a))) =
           Some ''Please upload both a model and a doll image.'' \<and>
         generatedImages (fst (snd (handleGenerate svc w a))) = generatedImages a \<and>
         generationProgress (fst (snd (handleGenerate svc w a))) = generationProgress a \<and>
         isLoading (fst (snd (handleGenerate svc w a))) = isLoading a"
  using assms by (auto simp add: handleGenerate_def MISSING_INPUT_def)

theorem handleGenerate_missing_input_witness:
  "handleGenerate third_pose_fails 0 doll_missing_app =
     (0, doll_missing_app \<lparr> error := Some MISSING_INPUT \<rparr>, [])"
proof -
  have "modelImage doll_missing_app = None \<or> dollImage doll_missing_app = None"
    by (simp add: doll_missing_app_def)
  from handleGenerate_missing_input [OF this, of third_pose_fails 0] show ?thesis by simp
qed

text \<open>
  C2. In a run of Generate with both images present in which the request for the pose of
  index \<open>k\<close> is issued and fails (the service rejects it, or its response yields no
  image), the callback has been called exactly \<open>k\<close> times, the requests issued are those
  for the poses of index \<open>0\<close> to \<open>k\<close> and no other, and the final state keeps exactly
  the \<open>k\<close> streamed images, with the loading flag false, the progress counter at zero and
  the one failure message that names no pose.
\<close>

theorem handleGenerate_pose_failure:
  assumes present: "modelImage a = Some m" "dollImage a = Some d"
    and run: "handleGenerate svc w a = (w', a', evs)"
    and issued: "k < length (outcomes_of evs)"
    and fails: "isl (outcomes_of evs ! k)"
  shows "length (progress_of evs) = k \<and>
         k < 6 \<and>
         requests_of evs =
           map (pose_request m d (background a) (aspectRatio a)) (take (Suc k) POSES_PROMPTS) \<and>
         length (requests_of evs) = Suc k \<and>
         generatedImages a' = progress_of evs \<and>
         isLoading a' = False \<and>
         generationProgress a' = 0 \<and>
         error a' = Some GENERATION_FAILED"
proof -
  define r where
    "r = poses_loop svc m d (background a) (aspectRatio a) onProgress POSES_PROMPTS [] w (run_start a)"
  have six: "length POSES_PROMPTS = 6"
    by (simp add: POSES_PROMPTS_def)
  have evs: "evs = run_events r"
    and a': "a' = (case run_result r of
                     Inl err \<Rightarrow> (run_sink r) \<lparr> error := Some GENERATION_FAILED \<rparr>
                   | Inr urls \<Rightarrow> run_sink r) \<lparr> isLoading := False, generationProgress := 0 \<rparr>"
    using run unfolding handleGenerate_run [OF present] r_def generatePromotionalImages_def
    by (simp_all add: Let_def)
  have outs: "outcomes_of evs = map Inr (progress_of evs) @
      (case run_result r of Inl e \<Rightarrow> [Inl e] | Inr urls \<Rightarrow> [])"
    unfolding evs r_def by (rule loop_outcomes)
  have not_before: "\<not> k < length (progress_of evs)"
  proof
    assume "k < length (progress_of evs)"
    then have "outcomes_of evs ! k = Inr (progress_of evs ! k)"
      by (simp add: outs nth_append)
    with fails show False by simp
  qed
  obtain e where failed: "run_result r = Inl e"
    using issued not_before outs by (cases "run_result r") auto
  have k: "length (progress_of evs) = k"
    using issued not_before outs failed by simp
  have lt: "length (progress_of evs) < length POSES_PROMPTS"
    using loop_result_cases [of svc m d "background a" "aspectRatio a" onProgress POSES_PROMPTS "[]" w "run_start a"]
      failed unfolding evs r_def by auto
  have reqs: "requests_of evs =
      map (pose_request m d (background a) (aspectRatio a)) (take (Suc k) POSES_PROMPTS)"
    using loop_requests [of svc m d "background a" "aspectRatio a" onProgress POSES_PROMPTS "[]" w "run_start a"]
    unfolding evs r_def k [unfolded evs r_def] by simp
  have sink: "run_sink r = fold onProgress (progress_of evs) (run_start a)"
    unfolding evs r_def by (rule loop_sink)
  have final: "generatedImages a' = progress_of evs" "isLoading a' = False"
      "generationProgress a' = 0" "error a' = Some GENERATION_FAILED"
    unfolding a' failed sink fold_onProgress by (simp_all add: run_start_def)
  from k lt six reqs final show ?thesis by simp
qed

lemma third_fails_run:
  "outcomes_of (snd (snd (handleGenerate third_pose_fails 0 ready_app))) =
     [Inr ''data:image/png;base64,UE9TRQ=='', Inr ''data:image/png;base64,UE9TRQ=='',
      Inl (Error NO_IMAGE)]"
proof -
  obtain p0 p1 p2 p3 p4 p5 where poses: "POSES_PROMPTS = [p0, p1, p2, p3, p4, p5]"
    using six_poses by blast
  show ?thesis
    by (simp add: handleGenerate_def ready_app_def run_eval poses third_pose_fails_def
          image_response_def text_only_response_def)
qed

theorem handleGenerate_pose_failure_witness:
  "case handleGenerate third_pose_fails 0 ready_app of
     (w', a', evs) \<Rightarrow>
       2 < length (outcomes_of evs) \<and> isl (outcomes_of evs ! 2) \<and>
       length (progress_of evs) = 2 \<and> length (requests_of evs) = 3 \<and>
       generatedImages a' = progress_of evs \<and> isLoading a' = False \<and>
       generationProgress a' = 0 \<and> error a' = Some GENERATION_FAILED"
proof -
  obtain w' a' evs where run: "handleGenerate third_pose_fails 0 ready_app = (w', a', evs)"
    by (cases "handleGenerate third_pose_fails 0 ready_app")
  have outs: "outcomes_of evs =
     [Inr ''data:image/png;base64,UE9TRQ=='', Inr ''data:image/png;base64,UE9TRQ=='',
      Inl (Error NO_IMAGE)]"
    using third_fails_run run by simp
  have issued: "2 < length (outcomes_of evs)" and fails: "isl (outcomes_of evs ! 2)"
    by (simp_all add: outs)
  have present: "modelImage ready_app = Some sample_model" "dollImage ready_app = Some sample_doll"
    by (simp_all add: ready_app_def)
  have "length (progress_of evs) = 2 \<and> length (requests_of evs) = 3 \<and>
       generatedImages a' = progress_of evs \<and> isLoading a' = False \<and>
       generationProgress a' = 0 \<and> error a' = Some GENERATION_FAILED"
    using handleGenerate_pose_failure [OF present run issued fails] by (simp add: poses_length)
  with issued fails run show ?thesis
    by simp
qed

text \<open>
  C8. In a run of Generate with both images present, the first event is a request, and the
  state at that moment has an empty image list, no error and a progress counter of zero
  (and the loading flag set). At every later moment of the run the image list holds the
  images streamed in this run so far and nothing else, and so does the final state.
\<close>

theorem handleGenerate_resets_session:
  assumes present: "modelImage a = Some m" "dollImage a = Some d"
    and run: "handleGenerate svc w a = (w', a', evs)"
  shows "(\<exists>q t rest. evs = (Requested q, t) # rest \<and>
            generatedImages t = [] \<and> error t = None \<and> generationProgress t = 0 \<and> isLoading t) \<and>
         (\<forall>i < length evs. generatedImages (snd (evs ! i)) = progress_of (take (Suc i) evs)) \<and>
         generatedImages a' = progress_of evs"
proof -
  define r where
    "r = poses_loop svc m d (background a) (aspectRatio a) onProgress POSES_PROMPTS [] w (run_start a)"
  have evs: "evs = run_events r"
    and a': "a' = (case run_result r of
                     Inl err \<Rightarrow> (run_sink r) \<lparr> error := Some GENERATION_FAILED \<rparr>
                   | Inr urls \<Rightarrow> run_sink r) \<lparr> isLoading := False, generationProgress := 0 \<rparr>"
    using run unfolding handleGenerate_run [OF present] r_def generatePromotionalImages_def
    by (simp_all add: Let_def)
  have first: "\<exists>q t rest. evs = (Requested q, t) # rest \<and>
      generatedImages t = [] \<and> error t = None \<and> generationProgress t = 0 \<and> isLoading t"
    unfolding evs r_def POSES_PROMPTS_def
    by (simp only: poses_loop_Cons) (simp add: run_start_def split: sum.splits)
  have rep: "replays onProgress (run_start a) evs"
    unfolding evs r_def by (rule loop_replays)
  have during: "\<forall>i < length evs. generatedImages (snd (evs ! i)) = progress_of (take (Suc i) evs)"
    using replays_images [OF rep] by (simp add: run_start_def)
  have sink: "run_sink r = fold onProgress (progress_of evs) (run_start a)"
    unfolding evs r_def by (rule loop_sink)
  have final: "generatedImages a' = progress_of evs"
    unfolding a' sink fold_onProgress by (simp add: run_start_def split: sum.splits)
  from first during final show ?thesis by simp
qed

theorem handleGenerate_resets_session_witness:
  "case handleGenerate third_pose_fails 0 ready_app of
     (w', a', evs) \<Rightarrow>
       generatedImages (snd (hd evs)) = [] \<and> error (snd (hd evs)) = None \<and>
       generationProgress (snd (hd evs)) = 0 \<and>
       generatedImages a' = progress_of evs"
proof -
  obtain w' a' evs where run: "handleGenerate third_pose_fails 0 ready_app = (w', a', evs)"
    by (cases "handleGenerate third_pose_fails 0 ready_app")
  have present: "modelImage ready_app = Some sample_model" "dollImage ready_app = Some sample_doll"
    by (simp_all add: ready_app_def)
  from handleGenerate_resets_session [OF present run] run show ?thesis
    by auto
qed

text \<open>
  C10. During a run of Generate the states are those the callback produces from the state
  that opens the run; a call of the callback appends exactly one image and adds exactly one
  to the counter; and at every moment of the run, so after every call of the callback, the
  progress counter equals the length of the image list.
\<close>

theorem progress_counter_lockstep:
  assumes present: "modelImage a = Some m" "dollImage a = Some d"
    and run: "handleGenerate svc w a = (w', a', evs)"
  shows "replays onProgress (run_start a) evs \<and>
         (\<forall>u b. generatedImages (onProgress u b) = generatedImages b @ [u] \<and>
                generationProgress (onProgress u b) = generationProgress b + 1) \<and>
         (\<forall>i < length evs. generationProgress (snd (evs ! i)) = length (generatedImages (snd (evs ! i))))"
proof -
  have evs: "evs = run_events (poses_loop svc m d (background a) (aspectRatio a) onProgress
                                  POSES_PROMPTS [] w (run_start a))"
    using run unfolding handleGenerate_run [OF present] generatePromotionalImages_def
    by (simp add: Let_def)
  have rep: "replays onProgress (run_start a) evs"
    unfolding evs by (rule loop_replays)
  have step: "\<forall>u b. generatedImages (onProgress u b) = generatedImages b @ [u] \<and>
                generationProgress (onProgress u b) = generationProgress b + 1"
    by (simp add: onProgress_def)
  have inv: "generationProgress t = length (generatedImages t)" if "(ev, t) \<in> set evs" for ev t
    using rep _ _ that
  proof (rule replays_invariant)
    show "generationProgress (run_start a) = length (generatedImages (run_start a))"
      by (simp add: run_start_def)
  next
    fix u and b :: AppState
    assume "generationProgress b = length (generatedImages b)"
    then show "generationProgress (onProgress u b) = length (generatedImages (onProgress u b))"
      by (simp add: onProgress_def)
  qed
  have "\<forall>i < length evs. generationProgress (snd (evs ! i)) = length (generatedImages (snd (evs ! i)))"
  proof (intro allI impI)
    fix i assume "i < length evs"
    then have "(fst (evs ! i), snd (evs ! i)) \<in> set evs" by simp
    then show "generationProgress (snd (evs ! i)) = length (generatedImages (snd (evs ! i)))"
      by (rule inv)
  qed
  with rep step show ?thesis by simp
qed

lemma steady_run_states:
  "map (\<lambda>(ev, t). (generationProgress t, length (generatedImages t)))
       (snd (snd (handleGenerate steady_service 0 ready_app))) =
     [(0, 0), (0, 0), (1, 1), (1, 1), (1, 1), (2, 2), (2, 2), (2, 2), (3, 3),
      (3, 3), (3, 3), (4, 4), (4, 4), (4, 4), (5, 5), (5, 5), (5, 5), (6, 6)]"
proof -
  obtain p0 p1 p2 p3 p4 p5 where poses: "POSES_PROMPTS = [p0, p1, p2, p3, p4, p5]"
    using six_poses by blast
  show ?thesis
    by (simp add: handleGenerate_def ready_app_def run_eval poses steady_service_def
          image_response_def onProgress_def)
qed

theorem progress_counter_lockstep_witness:
  "case handleGenerate steady_service 0 ready_app of
     (w', a', evs) \<Rightarrow>
       length evs = 18 \<and>
       generationProgress (snd (evs ! 17)) = 6 \<and>
       length (generatedImages (snd (evs ! 17))) = 6"
proof -
  obtain w' a' evs where run: "handleGenerate steady_service 0 ready_app = (w', a', evs)"
    by (cases "handleGenerate steady_service 0 ready_app")
  have present: "modelImage ready_app = Some sample_model" "dollImage ready_app = Some sample_doll"
    by (simp_all add: ready_app_def)
  have states: "map (\<lambda>(ev, t). (generationProgress t, length (generatedImages t))) evs =
     [(0, 0), (0, 0), (1, 1), (1, 1), (1, 1), (2, 2), (2, 2), (2, 2), (3, 3),
      (3, 3), (3, 3), (4, 4), (4, 4), (4, 4), (5, 5), (5, 5), (5, 5), (6, 6)]"
    using steady_run_states run by simp
  have len: "length evs = 18"
    using arg_cong [OF states, of length] by simp
  have "map (\<lambda>(ev, t). (generationProgress t, length (generatedImages t))) evs ! 17 = (6, 6)"
    by (simp add: states)
  then have last: "length (generatedImages (snd (evs ! 17))) = 6"
    using len by (simp add: case_prod_unfold)
  from progress_counter_lockstep [OF present run] len
  have "generationProgress (snd (evs ! 17)) = length (generatedImages (snd (evs ! 17)))"
    by simp
  with last len run show ?thesis by simp
qed

section \<open>Reading the response\<close>

text \<open>
  When the first candidate has a list of parts, the result is the data URL of the first
  part with inline data, and the error ``no image data returned'' when no part has any.
\<close>

lemma first_inline_find:
  "first_inline ps =
     (case find (\<lambda>p. inlineData p \<noteq> None) ps of
        None \<Rightarrow> Inl (Error NO_IMAGE)
      | Some p \<Rightarrow>
          Inr (''data:'' @ interpolate (blob_mimeType (the (inlineData p))) @ '';base64,'' @
               interpolate (blob_data (the (inlineData p)))))"
  by (induction ps) (auto split: option.splits)

lemma extract_image_parts:
  "extract_image (Response (Some (Candidate (Some (Content (Some ps))) # cs))) = first_inline ps"
  by (simp add: extract_image_def first_candidate_parts_def)

text \<open>
  C3. A response whose candidate list is empty does not reach the loop over the parts:
  \<^verbatim>\<open>response.candidates[0]\<close> is \<^verbatim>\<open>undefined\<close> and reading \<^verbatim>\<open>content\<close> from it throws a
  \<^verbatim>\<open>TypeError\<close>, which is not the error ``Image generation failed, no image data
  returned.'' that the function throws for a first candidate whose list of parts is empty.
\<close>

theorem generateSingleImage_no_candidates:
  "extract_image no_candidates_response = Inl TypeError \<and>
   fst (generateSingleImage empty_answer_service sample_model sample_doll
          (hd POSES_PROMPTS) ''A wide snowy field with pine trees'' ''16:9'' 0) = Inl TypeError \<and>
   Inl TypeError \<noteq> (Inl (Error NO_IMAGE) :: js_error + string) \<and>
   extract_image (Response (Some [Candidate (Some (Content (Some [])))])) = Inl (Error NO_IMAGE)"
  by (simp add: generateSingleImage_def settle_def extract_image_def first_candidate_parts_def
        no_candidates_response_def empty_answer_service_def)

section \<open>Rounding to binary64\<close>

text \<open>The exponent is the one of the binade, and it is the only such integer.\<close>

lemma expo_ge1:
  assumes "1 \<le> (x::rat)"
  shows "2 powi (bitlen \<lfloor>x\<rfloor> - 1) \<le> x \<and> x < 2 powi (bitlen \<lfloor>x\<rfloor> - 1 + 1)"
proof -
  define n where "n = \<lfloor>x\<rfloor>"
  have n: "0 < n" using assms unfolding n_def by simp
  have b: "1 \<le> bitlen n" using n bitlen_eq_zero_iff [of n] bitlen_nonneg [of n] by linarith
  from bitlen_bounds [OF n] have lo: "2 ^ nat (bitlen n - 1) \<le> n" and hi: "n < 2 ^ nat (bitlen n)"
    by simp_all
  have "(2::rat) powi (bitlen n - 1) = 2 ^ nat (bitlen n - 1)"
    using b by (simp add: power_int_nonneg_exp)
  also have "\<dots> = of_int (2 ^ nat (bitlen n - 1))" by simp
  also have "\<dots> \<le> of_int n" using lo by (simp only: of_int_le_iff)
  also have "\<dots> \<le> x" unfolding n_def by simp
  finally have 1: "2 powi (bitlen n - 1) \<le> x" .
  have "n + 1 \<le> 2 ^ nat (bitlen n)" using hi by simp
  then have "(of_int (n + 1) :: rat) \<le> of_int (2 ^ nat (bitlen n))" by (simp only: of_int_le_iff)
  moreover have "x < of_int (n + 1)" unfolding n_def by linarith
  moreover have "(2::rat) powi (bitlen n - 1 + 1) = 2 ^ nat (bitlen n)"
    using b by (simp add: power_int_nonneg_exp)
  ultimately have 2: "x < 2 powi (bitlen n - 1 + 1)" by simp
  from 1 2 show ?thesis unfolding n_def by simp
qed


lemma expo_lt1:
  assumes "0 < (x::rat)" and "x < 1"
  shows "2 powi (- bitlen (\<lceil>1 / x\<rceil> - 1)) \<le> x \<and> x < 2 powi (- bitlen (\<lceil>1 / x\<rceil> - 1) + 1)"
proof -
  define m where "m = \<lceil>1 / x\<rceil> - 1"
  have inv: "1 < 1 / x" using assms by simp
  then have "1 < \<lceil>1 / x\<rceil>" by (simp add: less_ceiling_iff)
  then have m: "0 < m" unfolding m_def by simp
  have b: "1 \<le> bitlen m" using m bitlen_eq_zero_iff [of m] bitlen_nonneg [of m] by linarith
  from bitlen_bounds [OF m] have lo: "2 ^ nat (bitlen m - 1) \<le> m" and hi: "m < 2 ^ nat (bitlen m)"
    by simp_all
  have above: "of_int m < 1 / x" unfolding m_def by linarith
  have below: "1 / x \<le> of_int (m + 1)" unfolding m_def by simp
  have "m + 1 \<le> 2 ^ nat (bitlen m)" using hi by simp
  then have "(of_int (m + 1) :: rat) \<le> of_int (2 ^ nat (bitlen m))" by (simp only: of_int_le_iff)
  then have "(of_int (m + 1) :: rat) \<le> 2 ^ nat (bitlen m)" by simp
  with below have "1 / x \<le> 2 ^ nat (bitlen m)" by linarith
  then have "1 \<le> 2 ^ nat (bitlen m) * x" using assms(1) by (simp add: field_simps)
  then have "1 / 2 ^ nat (bitlen m) \<le> x" by (simp add: field_simps)
  moreover have "(2::rat) powi (- bitlen m) = 1 / 2 ^ nat (bitlen m)"
    using b by (simp add: power_int_minus_divide power_int_nonneg_exp)
  ultimately have 1: "2 powi (- bitlen m) \<le> x" by simp
  have "(of_int (2 ^ nat (bitlen m - 1)) :: rat) \<le> of_int m" using lo by (simp only: of_int_le_iff)
  then have "(2::rat) ^ nat (bitlen m - 1) \<le> of_int m" by simp
  with above have "2 ^ nat (bitlen m - 1) < 1 / x" by linarith
  then have "2 ^ nat (bitlen m - 1) * x < 1" using assms(1) by (simp add: field_simps)
  then have "x < 1 / 2 ^ nat (bitlen m - 1)" by (simp add: field_simps)
  moreover have "(2::rat) powi (- bitlen m + 1) = 1 / 2 ^ nat (bitlen m - 1)"
  proof -
    have "(2::rat) powi (- bitlen m + 1) = 2 powi (- (bitlen m - 1))" by simp
    also have "\<dots> = 1 / 2 powi (bitlen m - 1)" by (rule power_int_minus_divide)
    also have "\<dots> = 1 / 2 ^ nat (bitlen m - 1)" using b by (simp add: power_int_nonneg_exp)
    finally show ?thesis .
  qed
  ultimately have 2: "x < 2 powi (- bitlen m + 1)" by simp
  from 1 2 show ?thesis unfolding m_def by simp
qed

lemma expo_bounds:
  assumes "0 < (x::rat)"
  shows "2 powi expo x \<le> x" and "x < 2 powi (expo x + 1)"
  using expo_ge1 [of x] expo_lt1 [OF assms] by (auto simp add: expo_def not_le)

lemma expo_unique:
  assumes "0 < (x::rat)" and lo: "2 powi e \<le> x" and hi: "x < 2 powi (e + 1)"
  shows "expo x = e"
proof (rule antisym)
  show "expo x \<le> e"
  proof (rule ccontr)
    assume "\<not> expo x \<le> e"
    then have "e + 1 \<le> expo x" by simp
    then have "(2::rat) powi (e + 1) \<le> 2 powi expo x" by (simp add: power_int_increasing)
    with expo_bounds(1) [OF assms(1)] hi show False by simp
  qed
  show "e \<le> expo x"
  proof (rule ccontr)
    assume "\<not> e \<le> expo x"
    then have "expo x + 1 \<le> e" by simp
    then have "(2::rat) powi (expo x + 1) \<le> 2 powi e" by (simp add: power_int_increasing)
    with expo_bounds(2) [OF assms(1)] lo show False by simp
  qed
qed

lemma expo_mono:
  assumes "0 < (x::rat)" and "x \<le> y"
  shows "expo x \<le> expo y"
proof (rule ccontr)
  assume "\<not> expo x \<le> expo y"
  then have "expo y + 1 \<le> expo x" by simp
  then have "(2::rat) powi (expo y + 1) \<le> 2 powi expo x" by (simp add: power_int_increasing)
  moreover have "0 < y" using assms by simp
  ultimately show False
    using expo_bounds(1) [OF assms(1)] expo_bounds(2) [of y] assms(2) by simp
qed

text \<open>
  Rounding to the nearest integer never crosses an integer, and errs by a half at most; so
  rounding to binary64 never crosses a value on the grid of the binade, and errs by half a
  unit in the last place at most.
\<close>

lemma ulp_pos: "0 < ulp x"
  by (simp add: ulp_def)

lemma rne_of_int: "rne (of_int n) = n"
  by (simp add: rne_def)

lemma rne_le:
  assumes "y \<le> of_int n"
  shows "rne y \<le> n"
proof (cases "y = of_int n")
  case True
  then show ?thesis by (simp add: rne_of_int)
next
  case False
  with assms have "y < of_int n" by simp
  then have "\<lfloor>y\<rfloor> < n" by (simp add: floor_less_iff)
  then have "\<lfloor>y\<rfloor> + 1 \<le> n" by simp
  then show ?thesis unfolding rne_def Let_def by auto
qed

lemma rne_ge:
  assumes "of_int n \<le> y"
  shows "n \<le> rne y"
proof -
  have "n \<le> \<lfloor>y\<rfloor>" using assms by (simp add: le_floor_iff)
  then show ?thesis unfolding rne_def Let_def by auto
qed

lemma rne_err: "\<bar>of_int (rne y) - y\<bar> \<le> 1 / 2"
proof -
  have "of_int \<lfloor>y\<rfloor> \<le> y" "y < of_int \<lfloor>y\<rfloor> + 1" by linarith+
  then show ?thesis unfolding rne_def Let_def by (auto simp add: abs_le_iff)
qed


lemma fl_pos_eq: "0 < x \<Longrightarrow> fl x = of_int (rne (x / ulp x)) * ulp x"
  by (simp add: fl_def)

lemma scaled_bounds:
  assumes "0 < (x::rat)"
  shows "2 ^ 52 \<le> x / ulp x" and "x / ulp x < 2 ^ 53"
proof -
  have u: "ulp x * 2 ^ 52 = 2 powi expo x"
    unfolding ulp_def by (simp add: power_int_diff)
  have u': "ulp x * 2 ^ 53 = 2 powi (expo x + 1)"
    unfolding ulp_def by (simp add: power_int_diff power_int_add)
  have "ulp x * 2 ^ 52 \<le> x" using expo_bounds(1) [OF assms] u by simp
  then show "2 ^ 52 \<le> x / ulp x" using ulp_pos [of x] by (simp add: field_simps)
  have "x < ulp x * 2 ^ 53" using expo_bounds(2) [OF assms] u' by simp
  then show "x / ulp x < 2 ^ 53" using ulp_pos [of x] by (simp add: field_simps)
qed

lemma fl_le:
  assumes "0 < x" and "x \<le> c" and "c / ulp x = of_int n"
  shows "fl x \<le> c"
proof -
  have "x / ulp x \<le> c / ulp x" using assms(2) ulp_pos [of x] by (simp add: divide_right_mono)
  then have "rne (x / ulp x) \<le> n" using assms(3) by (simp add: rne_le)
  then have "(of_int (rne (x / ulp x)) :: rat) \<le> of_int n" by (simp only: of_int_le_iff)
  then have "of_int (rne (x / ulp x)) * ulp x \<le> of_int n * ulp x"
    using ulp_pos [of x] by (simp add: mult_right_mono)
  moreover have "of_int n * ulp x = c" using assms(3) ulp_pos [of x] by (simp add: field_simps)
  ultimately show ?thesis using assms(1) by (simp add: fl_pos_eq)
qed

lemma fl_ge:
  assumes "0 < x" and "c \<le> x" and "c / ulp x = of_int n"
  shows "c \<le> fl x"
proof -
  have "c / ulp x \<le> x / ulp x" using assms(2) ulp_pos [of x] by (simp add: divide_right_mono)
  then have "n \<le> rne (x / ulp x)" using assms(3) by (simp add: rne_ge)
  then have "(of_int n :: rat) \<le> of_int (rne (x / ulp x))" by (simp only: of_int_le_iff)
  then have "of_int n * ulp x \<le> of_int (rne (x / ulp x)) * ulp x"
    using ulp_pos [of x] by (simp add: mult_right_mono)
  moreover have "of_int n * ulp x = c" using assms(3) ulp_pos [of x] by (simp add: field_simps)
  ultimately show ?thesis using assms(1) by (simp add: fl_pos_eq)
qed

lemma fl_exact:
  assumes "0 < x" and "x / ulp x = of_int n"
  shows "fl x = x"
  using fl_le [OF assms(1) order_refl assms(2)] fl_ge [OF assms(1) order_refl assms(2)] by simp

lemma fl_err:
  assumes "0 < x"
  shows "\<bar>fl x - x\<bar> \<le> ulp x / 2"
proof -
  have "fl x - x = (of_int (rne (x / ulp x)) - x / ulp x) * ulp x"
    using assms ulp_pos [of x] by (simp add: fl_pos_eq field_simps)
  then have "\<bar>fl x - x\<bar> = \<bar>of_int (rne (x / ulp x)) - x / ulp x\<bar> * ulp x"
    using ulp_pos [of x] by (simp add: abs_mult)
  also have "\<dots> \<le> (1 / 2) * ulp x"
    using rne_err [of "x / ulp x"] ulp_pos [of x] by (intro mult_right_mono) simp_all
  finally show ?thesis by simp
qed

lemma on_grid:
  assumes "expo x - 52 \<le> j"
  shows "(of_int k * 2 powi j) / ulp x = of_int (k * 2 ^ nat (j - (expo x - 52)))"
proof -
  have "(2::rat) powi j = 2 powi (j - (expo x - 52)) * 2 powi (expo x - 52)"
    by (simp add: power_int_add [symmetric])
  also have "(2::rat) powi (j - (expo x - 52)) = 2 ^ nat (j - (expo x - 52))"
    using assms by (simp add: power_int_nonneg_exp)
  finally have "(2::rat) powi j = 2 ^ nat (j - (expo x - 52)) * ulp x"
    by (simp add: ulp_def)
  then show ?thesis using ulp_pos [of x] by simp
qed

lemma fl_le_dyadic:
  assumes "0 < x" and "x \<le> of_int k * 2 powi j" and "expo x - 52 \<le> j"
  shows "fl x \<le> of_int k * 2 powi j"
  using fl_le [OF assms(1,2) on_grid [OF assms(3)]] .

lemma fl_ge_dyadic:
  assumes "0 < x" and "of_int k * 2 powi j \<le> x" and "expo x - 52 \<le> j"
  shows "of_int k * 2 powi j \<le> fl x"
  using fl_ge [OF assms(1,2) on_grid [OF assms(3)]] .

lemma fl_exact_dyadic:
  assumes "0 < x" and "x = of_int k * 2 powi j" and "expo x - 52 \<le> j"
  shows "fl x = x"
proof -
  have "x / ulp x = of_int (k * 2 ^ nat (j - (expo x - 52)))"
    using on_grid [OF assms(3), of k] assms(2) by simp
  with assms(1) show ?thesis by (rule fl_exact)
qed

lemma expo_less:
  assumes "0 < x" and "x < 2 powi e"
  shows "expo x < e"
proof (rule ccontr)
  assume "\<not> expo x < e"
  then have "(2::rat) powi e \<le> 2 powi expo x" by (simp add: power_int_increasing)
  with expo_bounds(1) [OF assms(1)] assms(2) show False by simp
qed

lemma expo_ge:
  assumes "2 powi e \<le> x"
  shows "e \<le> expo x"
proof (rule ccontr)
  have "(0::rat) < 2 powi e" by simp
  from this assms have x: "0 < x" by (rule less_le_trans)
  assume "\<not> e \<le> expo x"
  then have "(2::rat) powi (expo x + 1) \<le> 2 powi e" by (simp add: power_int_increasing)
  with expo_bounds(2) [OF x] assms show False by simp
qed

lemma fl_le_int:
  assumes "0 < x" and "x \<le> of_int k" and "k < 2 ^ 53"
  shows "fl x \<le> of_int k"
proof -
  have "(of_int k :: rat) < of_int (2 ^ 53)" using assms(3) by (simp only: of_int_less_iff)
  then have "x < 2 powi 53" using assms(2) by simp
  then have "expo x < 53" using assms(1) by (rule expo_less [rotated])
  then have "expo x - 52 \<le> 0" by simp
  from fl_le_dyadic [OF assms(1) _ this, of k] assms(2) show ?thesis by simp
qed

lemma fl_ge_int:
  assumes "of_int k \<le> x" and "0 < k" and "x < 2 ^ 53"
  shows "of_int k \<le> fl x"
proof -
  have "(0::rat) < of_int k" using assms(2) by simp
  from this assms(1) have x: "0 < x" by (rule less_le_trans)
  have "x < 2 powi 53" using assms(3) by simp
  then have "expo x < 53" using x by (rule expo_less [rotated])
  then have "expo x - 52 \<le> 0" by simp
  from fl_ge_dyadic [OF x _ this, of k] assms(1) show ?thesis by simp
qed

lemma fl_pos:
  assumes "0 < x"
  shows "0 < fl x"
proof -
  have "(of_int (2 ^ 52) :: rat) \<le> x / ulp x" using scaled_bounds(1) [OF assms] by simp
  then have "2 ^ 52 \<le> rne (x / ulp x)" by (rule rne_ge)
  then have "0 < rne (x / ulp x)" by simp
  then show ?thesis using assms ulp_pos [of x] by (simp add: fl_pos_eq)
qed

lemma fl_nonneg: "0 \<le> x \<Longrightarrow> 0 \<le> fl x"
  using fl_pos [of x] by (cases "x = 0") (simp_all add: fl_def)

lemma fl_zero: "fl 0 = 0"
  by (simp add: fl_def)

lemma fl_9_16: "fl (9 / 16) = 9 / 16"
  by code_simp

lemma target_ratio: "targetAspectRatio = Fin (9 / 16)"
  by (simp add: targetAspectRatio_def fl_9_16)

lemma ulp_le: 
  assumes "0 < x"
  shows "ulp x \<le> x / 2 ^ 52"
proof -
  have "2 ^ 52 * ulp x \<le> x"
    using scaled_bounds(1) [OF assms] ulp_pos [of x] by (simp add: field_simps)
  then show ?thesis by (simp add: field_simps)
qed

lemma fl_rel:
  assumes "0 < x"
  shows "\<bar>fl x - x\<bar> \<le> x / 2 ^ 53"
proof -
  have "\<bar>fl x - x\<bar> \<le> ulp x / 2" using assms by (rule fl_err)
  also have "\<dots> \<le> (x / 2 ^ 52) / 2" using ulp_le [OF assms] by simp
  finally show ?thesis by simp
qed

lemma fl_half:
  assumes "0 < y"
  shows "fl (fl y / 2) = fl y / 2"
proof -
  define m where "m = rne (y / ulp y)"
  define e where "e = expo y"
  have z: "fl y = of_int m * 2 powi (e - 52)"
    using assms by (simp add: fl_pos_eq m_def e_def ulp_def)
  have zpos: "0 < fl y / 2" using fl_pos [OF assms] by simp
  have half: "fl y / 2 = of_int m * 2 powi (e - 53)"
  proof -
    have "(2::rat) powi (e - 52) = 2 powi (e - 53) * 2"
      by (simp add: power_int_diff)
    then show ?thesis using z by simp
  qed
  have "y / ulp y \<le> of_int (2 ^ 53)" using scaled_bounds(2) [OF assms] by simp
  then have m_le: "m \<le> 2 ^ 53" unfolding m_def by (rule rne_le)
  show ?thesis
  proof (cases "m = 2 ^ 53")
    case True
    have "(2::rat) powi e = 2 ^ 53 * 2 powi (e - 53)"
      by (simp add: power_int_diff)
    with half True have eq: "fl y / 2 = of_int 1 * 2 powi e" by simp
    then have "2 powi e \<le> fl y / 2" "fl y / 2 < 2 powi (e + 1)"
      by (simp_all add: power_int_add)
    with zpos have "expo (fl y / 2) = e" by (rule expo_unique)
    then have "expo (fl y / 2) - 52 \<le> e" by simp
    with zpos eq show ?thesis by (rule fl_exact_dyadic)
  next
    case False
    with m_le have "m < 2 ^ 53" by simp
    then have "m + 1 \<le> 2 ^ 53" by simp
    then have "(of_int m :: rat) < of_int (2 ^ 53)" using \<open>m < 2 ^ 53\<close> by (simp only: of_int_less_iff)
    then have "(of_int m :: rat) * 2 powi (e - 53) < 2 ^ 53 * 2 powi (e - 53)"
      by (simp add: mult_strict_right_mono)
    also have "\<dots> = 2 powi e" by (simp add: power_int_diff)
    finally have "fl y / 2 < 2 powi e" using half by simp
    with zpos have "expo (fl y / 2) < e" by (rule expo_less)
    then have "expo (fl y / 2) - 52 \<le> e - 53" by simp
    with zpos half show ?thesis by (rule fl_exact_dyadic)
  qed
qed

lemma fl_half0: "0 \<le> y \<Longrightarrow> fl (fl y / 2) = fl y / 2"
  using fl_half [of y] by (cases "y = 0") (simp_all add: fl_zero)

lemma fl_le_twice:
  assumes "0 \<le> x"
  shows "fl x \<le> 2 * x"
proof (cases "x = 0")
  case True
  then show ?thesis by (simp add: fl_zero)
next
  case False
  with assms have x: "0 < x" by simp
  have "x / 2 ^ 53 \<le> x" using x by (simp add: field_simps)
  with fl_rel [OF x] have "\<bar>fl x - x\<bar> \<le> x" by (rule order_trans)
  then show ?thesis by linarith
qed

section \<open>The draw rectangle\<close>

text \<open>
  The rounded ratio is on the same side of 9/16 as the exact one: 9/16 is a binary64
  value, and a ratio of two 32-bit integers above it is above it by more than a unit in
  the last place.
\<close>

lemma ratio_branch:
  assumes w: "0 < w" and h: "0 < h" and wb: "w < 2 ^ 32" and hb: "h < 2 ^ 32"
  shows "9 / 16 < fl (of_nat w / of_nat h) \<longleftrightarrow> 9 / 16 < (of_nat w / of_nat h :: rat)"
proof -
  define q :: rat where "q = of_nat w / of_nat h"
  have q: "0 < q" using w h by (simp add: q_def)
  have down: "fl q \<le> 9 / 16" if "q \<le> 9 / 16"
  proof -
    from that have le: "q \<le> of_int 9 * 2 powi (- 4)" by simp
    from that have "q < 1" by linarith
    then have "q < 2 powi 0" by simp
    with q have "expo q < 0" by (rule expo_less)
    then have "expo q - 52 \<le> - 4" by simp
    from fl_le_dyadic [OF q le this] show ?thesis by simp
  qed
  have up: "9 / 16 < fl q" if "9 / 16 < q"
  proof -
    have qb: "q < 2 ^ 53"
    proof -
      have "1 \<le> (of_nat h :: rat)" using h by simp
      then have "of_nat w / of_nat h \<le> (of_nat w :: rat) / 1"
        by (intro divide_left_mono) simp_all
      also have "\<dots> = of_nat w" by simp
      also have "\<dots> < of_nat (2 ^ 32)" using wb by (simp only: of_nat_less_iff)
      also have "\<dots> \<le> 2 ^ 53" by simp
      finally show ?thesis by (simp add: q_def)
    qed
    have hq: "q * of_nat h = of_nat w" using h by (simp add: q_def)
    have "9 / 16 * of_nat h < q * of_nat h" using that h by (simp add: mult_strict_right_mono)
    then have "9 * of_nat h < (16 * of_nat w :: rat)" unfolding hq by simp
    then have "(of_nat (9 * h) :: rat) < of_nat (16 * w)" by simp
    then have "9 * h < 16 * w" by (simp only: of_nat_less_iff)
    then have "9 * h + 1 \<le> 16 * w" by simp
    then have "(of_nat (9 * h + 1) :: rat) \<le> of_nat (16 * w)" by (simp only: of_nat_le_iff)
    then have "9 * of_nat h + 1 \<le> (16 * of_nat w :: rat)" by simp
    then have "9 * of_nat h + 1 \<le> q * (16 * of_nat h)" using hq by (simp add: mult.assoc mult.left_commute)
    then have "(9 * of_nat h + 1) / (16 * of_nat h) \<le> q"
      using h by (simp add: pos_divide_le_eq)
    moreover have "(9 * of_nat h + 1) / (16 * of_nat h) = 9 / 16 + 1 / (16 * of_nat h :: rat)"
      using h by (simp add: add_divide_distrib)
    ultimately have gap': "9 / 16 + 1 / (16 * of_nat h) \<le> q" by simp
    have "(of_nat h :: rat) \<le> of_nat (2 ^ 32)"
      using hb by (simp only: of_nat_le_iff order_less_imp_le)
    then have "(16 * of_nat h :: rat) \<le> 2 ^ 36" by simp
    then have "1 / 2 ^ 36 \<le> 1 / (16 * of_nat h :: rat)"
      using h by (intro divide_left_mono) simp_all
    with gap' have c: "9 / 16 + 1 / 2 ^ 36 \<le> q" by linarith
    show ?thesis
    proof (cases "1 \<le> q")
      case True
      then have "of_int 1 \<le> q" by simp
      from fl_ge_int [OF this _ qb] show ?thesis by simp
    next
      case False
      then have "q < 2 powi (- 1 + 1)" by simp
      moreover have "2 powi (- 1) \<le> q" using c by simp
      ultimately have "expo q = - 1" using q by (intro expo_unique)
      then have e: "expo q - 52 \<le> - 36" by simp
      have "of_int (9 * 2 ^ 32 + 1) * 2 powi (- 36) \<le> q" using c by simp
      from fl_ge_dyadic [OF q this e] show ?thesis by simp
    qed
  qed
  from up down show ?thesis unfolding q_def by (meson not_le)
qed


lemma draw_rect_wide:
  assumes w: "0 < w" and h: "0 < h" and wide: "9 / 16 < fl (of_nat w / of_nat h)"
  shows "draw_rect w h =
      \<lparr> draw_x = Fin 0,
        draw_y = Fin (fl (1280 - fl (720 / fl (of_nat w / of_nat h))) / 2),
        drawWidth = Fin 720,
        drawHeight = Fin (fl (720 / fl (of_nat w / of_nat h))) \<rparr>"
    and "0 < fl (720 / fl (of_nat w / of_nat h))"
    and "fl (720 / fl (of_nat w / of_nat h)) \<le> 1280"
proof -
  define r where "r = fl (of_nat w / of_nat h)"
  have r: "9 / 16 < r" using wide by (simp add: r_def)
  then have r0: "0 < r" by linarith
  have t0: "0 < 720 / r" using r0 by simp
  have "720 < 1280 * r" using r by linarith
  then have "720 / r < 1280" using r0 by (simp add: pos_divide_less_eq)
  then have tle: "720 / r \<le> of_int 1280" by simp
  show pos: "0 < fl (720 / fl (of_nat w / of_nat h))"
    using fl_pos [OF t0] by (simp add: r_def)
  from fl_le_int [OF t0 tle] show le: "fl (720 / fl (of_nat w / of_nat h)) \<le> 1280"
    by (simp add: r_def)
  have half: "fl (fl (1280 - fl (720 / r)) / 2) = fl (1280 - fl (720 / r)) / 2"
    using le by (intro fl_half0) (simp add: r_def)
  show "draw_rect w h =
      \<lparr> draw_x = Fin 0,
        draw_y = Fin (fl (1280 - fl (720 / fl (of_nat w / of_nat h))) / 2),
        drawWidth = Fin 720,
        drawHeight = Fin (fl (720 / fl (of_nat w / of_nat h))) \<rparr>"
    using h r r0 half
    by (simp add: draw_rect_def target_ratio canvasWidth_def canvasHeight_def Let_def fl_zero
          r_def [symmetric])
qed

lemma draw_rect_tall:
  assumes w: "0 < w" and h: "0 < h" and tall: "fl (of_nat w / of_nat h) \<le> 9 / 16"
  shows "draw_rect w h =
      \<lparr> draw_x = Fin (fl (720 - fl (1280 * fl (of_nat w / of_nat h))) / 2),
        draw_y = Fin 0,
        drawWidth = Fin (fl (1280 * fl (of_nat w / of_nat h))),
        drawHeight = Fin 1280 \<rparr>"
    and "0 < fl (1280 * fl (of_nat w / of_nat h))"
    and "fl (1280 * fl (of_nat w / of_nat h)) \<le> 720"
proof -
  define r where "r = fl (of_nat w / of_nat h)"
  have "0 < (of_nat w / of_nat h :: rat)" using w h by simp
  then have r0: "0 < r" unfolding r_def by (rule fl_pos)
  have r: "r \<le> 9 / 16" using tall by (simp add: r_def)
  have t0: "0 < 1280 * r" using r0 by simp
  have tle: "1280 * r \<le> of_int 720" using r by simp
  show pos: "0 < fl (1280 * fl (of_nat w / of_nat h))"
    using fl_pos [OF t0] by (simp add: r_def)
  from fl_le_int [OF t0 tle] show le: "fl (1280 * fl (of_nat w / of_nat h)) \<le> 720"
    by (simp add: r_def)
  have half: "fl (fl (720 - fl (1280 * r)) / 2) = fl (720 - fl (1280 * r)) / 2"
    using le by (intro fl_half0) (simp add: r_def)
  show "draw_rect w h =
      \<lparr> draw_x = Fin (fl (720 - fl (1280 * fl (of_nat w / of_nat h))) / 2),
        draw_y = Fin 0,
        drawWidth = Fin (fl (1280 * fl (of_nat w / of_nat h))),
        drawHeight = Fin 1280 \<rparr>"
    using h r r0 half
    by (simp add: draw_rect_def target_ratio canvasWidth_def canvasHeight_def Let_def fl_zero
          r_def [symmetric])
qed

text \<open>The two roundings of each branch move the aspect ratio by less than a part in \<open>2 ^ 51\<close>.\<close>

lemma aspect_wide:
  assumes q: "0 < q"
  shows "\<bar>720 - q * fl (720 / fl q)\<bar> \<le> q * fl (720 / fl q) / 2 ^ 51"
proof -
  define r where "r = fl q"
  define t where "t = 720 / r"
  define dh where "dh = fl t"
  have r0: "0 < r" unfolding r_def using q by (rule fl_pos)
  have t0: "0 < t" unfolding t_def using r0 by simp
  have rt: "t * r = 720" unfolding t_def using r0 by simp
  have e1: "\<bar>r - q\<bar> \<le> q / 2 ^ 53" unfolding r_def using q by (rule fl_rel)
  have e2: "\<bar>dh - t\<bar> \<le> t / 2 ^ 53" unfolding dh_def using t0 by (rule fl_rel)
  have split: "720 - q * dh = t * (r - q) + q * (t - dh)"
    using rt by (simp add: algebra_simps)
  have a1: "\<bar>t * (r - q)\<bar> \<le> t * (q / 2 ^ 53)"
    using e1 t0 by (simp add: abs_mult mult_left_mono)
  have "\<bar>t - dh\<bar> \<le> t / 2 ^ 53" using e2 by (simp add: abs_minus_commute)
  then have a2: "\<bar>q * (t - dh)\<bar> \<le> q * (t / 2 ^ 53)"
    using q by (simp add: abs_mult mult_left_mono)
  have "\<bar>720 - q * dh\<bar> \<le> \<bar>t * (r - q)\<bar> + \<bar>q * (t - dh)\<bar>"
    unfolding split by (rule abs_triangle_ineq)
  also have "\<dots> \<le> t * (q / 2 ^ 53) + q * (t / 2 ^ 53)" using a1 a2 by (rule add_mono)
  also have "\<dots> = q * t / 2 ^ 52" by simp
  finally have bound: "\<bar>720 - q * dh\<bar> \<le> q * t / 2 ^ 52" .
  have "t / 2 ^ 53 \<le> t / 2" using t0 by simp
  with e2 have "t \<le> 2 * dh" by linarith
  then have "q * t \<le> q * (2 * dh)" using q by (simp only: mult_le_cancel_left_pos)
  then have "q * t / 2 ^ 52 \<le> q * (2 * dh) / 2 ^ 52" by (rule divide_right_mono) simp
  also have "\<dots> = q * dh / 2 ^ 51" by simp
  finally have "q * t / 2 ^ 52 \<le> q * dh / 2 ^ 51" .
  with bound show ?thesis unfolding dh_def t_def r_def by (rule order_trans)
qed

lemma aspect_tall:
  assumes q: "0 < q"
  shows "\<bar>fl (1280 * fl q) - q * 1280\<bar> \<le> q * 1280 / 2 ^ 51"
proof -
  define r where "r = fl q"
  define dw where "dw = fl (1280 * r)"
  have r0: "0 < r" unfolding r_def using q by (rule fl_pos)
  have e1: "\<bar>r - q\<bar> \<le> q / 2 ^ 53" unfolding r_def using q by (rule fl_rel)
  have "0 < 1280 * r" using r0 by simp
  then have e2: "\<bar>dw - 1280 * r\<bar> \<le> 1280 * r / 2 ^ 53" unfolding dw_def by (rule fl_rel)
  have "q / 2 ^ 53 \<le> q" using q by (simp add: field_simps)
  with e1 have "r \<le> 2 * q" by linarith
  then have "1280 * r / 2 ^ 53 \<le> 1280 * (2 * q) / 2 ^ 53" by simp
  with e2 have b1: "\<bar>dw - 1280 * r\<bar> \<le> 1280 * (2 * q) / 2 ^ 53" by (rule order_trans)
  have "\<bar>1280 * (r - q)\<bar> = \<bar>1280\<bar> * \<bar>r - q\<bar>" by (rule abs_mult)
  also have "\<dots> \<le> \<bar>1280\<bar> * (q / 2 ^ 53)" using e1 by (intro mult_left_mono) simp_all
  finally have b2: "\<bar>1280 * (r - q)\<bar> \<le> 1280 * (q / 2 ^ 53)" by simp
  have "dw - q * 1280 = (dw - 1280 * r) + 1280 * (r - q)" by (simp add: algebra_simps)
  then have "\<bar>dw - q * 1280\<bar> \<le> \<bar>dw - 1280 * r\<bar> + \<bar>1280 * (r - q)\<bar>"
    by (simp only: abs_triangle_ineq)
  also have "\<dots> \<le> 1280 * (2 * q) / 2 ^ 53 + 1280 * (q / 2 ^ 53)" using b1 b2 by (rule add_mono)
  also have "\<dots> \<le> q * 1280 / 2 ^ 51" using q by simp
  finally show ?thesis unfolding dw_def r_def .
qed


lemma fl_abs_err:
  assumes "0 \<le> d" and "d < 2 powi e"
  shows "\<bar>fl d - d\<bar> \<le> 2 powi (e - 54)"
proof (cases "d = 0")
  case True
  then show ?thesis by (simp add: fl_zero)
next
  case False
  with assms(1) have d: "0 < d" by simp
  from d assms(2) have "expo d < e" by (rule expo_less)
  then have "expo d - 52 \<le> e - 53" by simp
  then have "ulp d \<le> 2 powi (e - 53)" unfolding ulp_def by (simp add: power_int_increasing)
  then have "ulp d / 2 \<le> 2 powi (e - 53) / 2" by simp
  also have "2 powi (e - 53) / 2 = (2::rat) powi (e - 54)"
    by (simp add: power_int_diff)
  finally have "ulp d / 2 \<le> 2 powi (e - 54)" .
  with fl_err [OF d] show ?thesis by (rule order_trans)
qed

lemma margin_gap:
  "fl (c - d) / 2 - (c - (fl (c - d) / 2 + d)) = fl (c - d) - (c - d)"
  by simp

lemma margin_eq:
  "(fl (c - d) / 2 = c - (fl (c - d) / 2 + d)) = (fl (c - d) = c - d)"
  by auto

lemma fits_inside:
  assumes "0 < d" and "d \<le> c"
  shows "0 \<le> fl (c - d) / 2" and "fl (c - d) / 2 + d \<le> c"
proof -
  have nn: "0 \<le> c - d" using assms by simp
  from fl_nonneg [OF nn] show "0 \<le> fl (c - d) / 2" by simp
  from fl_le_twice [OF nn] show "fl (c - d) / 2 + d \<le> c" by simp
qed

lemma fl_2: "fl 2 = 2"
  by code_simp

lemma fl_360: "fl 360 = 360"
  by code_simp

lemma draw_rect_100_700:
  "draw_rect 100 700 =
     \<lparr> draw_x = Fin (2362379268821577 / 8796093022208), draw_y = Fin 0,
       drawWidth = Fin (3216856876693211 / 17592186044416), drawHeight = Fin 1280 \<rparr>"
  by code_simp

text \<open>
  C5, as the code has it. For an image of positive width \<open>w\<close> and height \<open>h\<close> (unsigned
  32-bit integers, as the DOM gives them) every component of the draw rectangle is a finite
  number. When
  \<open>w / h > 9 / 16\<close> the width is 720 and the height is \<^verbatim>\<open>720 / (w / h)\<close> as binary64
  arithmetic computes it, at most 1280; otherwise the height is 1280 and the width is
  \<^verbatim>\<open>1280 * (w / h)\<close> as computed, at most 720. Both sides are positive, the rectangle at
  its origin lies inside the 720 by 1280 canvas, so nothing of the image is cropped, and
  its aspect ratio is that of the image up to the two roundings, a relative error below
  \<open>1 / 2 ^ 51\<close>.
\<close>

theorem draw_rect_fits:
  assumes w: "0 < w" and h: "0 < h" and wb: "w < 2 ^ 32" and hb: "h < 2 ^ 32"
  shows "\<exists>x y dw dh.
    draw_rect w h = \<lparr> draw_x = Fin x, draw_y = Fin y, drawWidth = Fin dw, drawHeight = Fin dh \<rparr> \<and>
    (if 9 / 16 < (of_nat w / of_nat h :: rat)
     then dw = 720 \<and> dh = fl (720 / fl (of_nat w / of_nat h)) \<and> dh \<le> 1280
     else dh = 1280 \<and> dw = fl (1280 * fl (of_nat w / of_nat h)) \<and> dw \<le> 720) \<and>
    0 < dw \<and> 0 < dh \<and>
    0 \<le> x \<and> x + dw \<le> 720 \<and> 0 \<le> y \<and> y + dh \<le> 1280 \<and>
    \<bar>dw - of_nat w / of_nat h * dh\<bar> \<le> of_nat w / of_nat h * dh / 2 ^ 51"
proof -
  define q :: rat where "q = of_nat w / of_nat h"
  have q: "0 < q" using w h by (simp add: q_def)
  have branch: "9 / 16 < fl q \<longleftrightarrow> 9 / 16 < q"
    unfolding q_def using w h wb hb by (rule ratio_branch)
  show ?thesis
  proof (cases "9 / 16 < q")
    case True
    with branch have wide: "9 / 16 < fl (of_nat w / of_nat h)" by (simp add: q_def)
    define dh where "dh = fl (720 / fl q)"
    note R = draw_rect_wide [OF w h wide, folded q_def, folded dh_def]
    note I = fits_inside [OF R(2) R(3)]
    note A = aspect_wide [OF q, folded dh_def]
    show ?thesis
      unfolding q_def [symmetric]
      apply (rule exI [where x = 0])
      apply (rule exI [where x = "fl (1280 - dh) / 2"])
      apply (rule exI [where x = 720])
      apply (rule exI [where x = dh])
      apply (simp only: R(1) True if_True)
      apply (intro conjI refl R(2) R(3) I A)
      apply (simp_all add: dh_def)
      done
  next
    case False
    with branch have tall: "fl (of_nat w / of_nat h) \<le> 9 / 16" by (simp add: q_def)
    define dw where "dw = fl (1280 * fl q)"
    note R = draw_rect_tall [OF w h tall, folded q_def, folded dw_def]
    note I = fits_inside [OF R(2) R(3)]
    note A = aspect_tall [OF q, folded dw_def]
    show ?thesis
      unfolding q_def [symmetric]
      apply (rule exI [where x = "fl (720 - dw) / 2"])
      apply (rule exI [where x = 0])
      apply (rule exI [where x = dw])
      apply (rule exI [where x = 1280])
      apply (simp only: R(1) False if_False)
      apply (intro conjI refl R(2) R(3) I A)
      apply (simp_all add: dw_def)
      done
  qed
qed

theorem draw_rect_fits_witness:
  "drawWidth (draw_rect 4000 2000) = Fin 720 \<and>
   drawHeight (draw_rect 4000 2000) = Fin 360 \<and>
   draw_x (draw_rect 4000 2000) = Fin 0"
proof -
  from draw_rect_fits [of 4000 2000] obtain x y dw dh where
    R: "draw_rect 4000 2000 =
          \<lparr> draw_x = Fin x, draw_y = Fin y, drawWidth = Fin dw, drawHeight = Fin dh \<rparr>"
    and dw: "dw = 720" and dh: "dh = fl (720 / fl (of_nat 4000 / of_nat 2000))"
    and x: "0 \<le> x" "x + dw \<le> 720"
    by auto
  have "dh = 360" unfolding dh by (simp add: fl_2 fl_360)
  moreover have "x = 0" using x dw by simp
  ultimately show ?thesis using R dw by simp
qed

lemma draw_rect_100_900:
  "draw_rect 100 900 =
     \<lparr> draw_x = Fin (1270546769874489 / 4398046511104), draw_y = Fin 0,
       drawWidth = Fin (2501999792983609 / 17592186044416), drawHeight = Fin 1280 \<rparr>"
  by code_simp

lemma ratio_100_900:
  "fdiv (Fin (2501999792983609 / 17592186044416)) (Fin 1280) =
     Fin (8006399337547549 / 72057594037927936)"
  "fdiv (Fin (of_nat 100)) (Fin (of_nat 900)) = Fin (2001599834386887 / 18014398509481984)"
  by code_simp+

text \<open>
  C5, as stated, fails. A 100 by 900 image is not wider than 9/16, and it is drawn
  142.22222222222223 wide and 1280 high: the width is not 1280 times 100/900, the ratio of
  the two sides is not 100/900, and the two ratios differ even when each is computed in
  binary64 (0.11111111111111112 against 0.1111111111111111).
\<close>

theorem draw_rect_ratio_differs:
  "draw_rect 100 900 =
     \<lparr> draw_x = Fin (1270546769874489 / 4398046511104), draw_y = Fin 0,
       drawWidth = Fin (2501999792983609 / 17592186044416), drawHeight = Fin 1280 \<rparr> \<and>
   (9 / 16 < (of_nat 100 / of_nat 900 :: rat)) = False \<and>
   (2501999792983609 / 17592186044416 :: rat) \<noteq> 1280 * (of_nat 100 / of_nat 900) \<and>
   (2501999792983609 / 17592186044416 :: rat) / 1280 \<noteq> of_nat 100 / of_nat 900 \<and>
   fdiv (Fin (2501999792983609 / 17592186044416)) (Fin 1280) \<noteq>
     fdiv (Fin (of_nat 100)) (Fin (of_nat 900))"
proof -
  have "fdiv (Fin (2501999792983609 / 17592186044416)) (Fin 1280) \<noteq>
      fdiv (Fin (of_nat 100)) (Fin (of_nat 900))"
    unfolding ratio_100_900 by simp
  with draw_rect_100_900 show ?thesis by simp
qed

text \<open>
  C6, as the code has it. For an image of positive width and height (unsigned 32-bit
  integers) the origin is \<^verbatim>\<open>(720 - drawWidth) / 2\<close> and \<^verbatim>\<open>(1280 - drawHeight) / 2\<close> as
  binary64 arithmetic computes them: the subtraction is rounded, the halving is exact. On
  the axis that the image fills both margins are zero. On the other axis the two margins
  differ by the rounding error of that one subtraction, at most \<open>1 / 2 ^ 44\<close> of a pixel
  across and \<open>1 / 2 ^ 43\<close> down, and they are equal exactly when the subtraction is
  exact.
\<close>

theorem draw_rect_centred:
  assumes w: "0 < w" and h: "0 < h" and wb: "w < 2 ^ 32" and hb: "h < 2 ^ 32"
  shows "\<exists>x y dw dh.
    draw_rect w h = \<lparr> draw_x = Fin x, draw_y = Fin y, drawWidth = Fin dw, drawHeight = Fin dh \<rparr> \<and>
    x = fl (720 - dw) / 2 \<and> y = fl (1280 - dh) / 2 \<and>
    \<bar>x - (720 - (x + dw))\<bar> \<le> 1 / 2 ^ 44 \<and>
    \<bar>y - (1280 - (y + dh))\<bar> \<le> 1 / 2 ^ 43 \<and>
    ((x = 720 - (x + dw)) = (fl (720 - dw) = 720 - dw)) \<and>
    ((y = 1280 - (y + dh)) = (fl (1280 - dh) = 1280 - dh)) \<and>
    ((dw = 720 \<and> x = 0 \<and> 720 - (x + dw) = 0) \<or> (dh = 1280 \<and> y = 0 \<and> 1280 - (y + dh) = 0))"
proof (cases "9 / 16 < fl (of_nat w / of_nat h)")
  case True
  define dh where "dh = fl (720 / fl (of_nat w / of_nat h))"
  note R = draw_rect_wide [OF w h True, folded dh_def]
  have "0 \<le> 1280 - dh" "1280 - dh < 2 powi 11" using R(2,3) by simp_all
  from fl_abs_err [OF this] have "\<bar>fl (1280 - dh) - (1280 - dh)\<bar> \<le> 1 / 2 ^ 43" by simp
  then have E: "\<bar>fl (1280 - dh) / 2 - (1280 - (fl (1280 - dh) / 2 + dh))\<bar> \<le> 1 / 2 ^ 43"
    by (simp only: margin_gap)
  show ?thesis
    apply (rule exI [where x = 0])
    apply (rule exI [where x = "fl (1280 - dh) / 2"])
    apply (rule exI [where x = 720])
    apply (rule exI [where x = dh])
    apply (simp only: R(1) margin_eq)
    apply (intro conjI refl E)
    apply (simp_all add: fl_zero)
    done
next
  case False
  then have tall: "fl (of_nat w / of_nat h) \<le> 9 / 16" by simp
  define dw where "dw = fl (1280 * fl (of_nat w / of_nat h))"
  note R = draw_rect_tall [OF w h tall, folded dw_def]
  have "0 \<le> 720 - dw" "720 - dw < 2 powi 10" using R(2,3) by simp_all
  from fl_abs_err [OF this] have "\<bar>fl (720 - dw) - (720 - dw)\<bar> \<le> 1 / 2 ^ 44" by simp
  then have E: "\<bar>fl (720 - dw) / 2 - (720 - (fl (720 - dw) / 2 + dw))\<bar> \<le> 1 / 2 ^ 44"
    by (simp only: margin_gap)
  show ?thesis
    apply (rule exI [where x = "fl (720 - dw) / 2"])
    apply (rule exI [where x = 0])
    apply (rule exI [where x = dw])
    apply (rule exI [where x = 1280])
    apply (simp only: R(1) margin_eq)
    apply (intro conjI refl E)
    apply (simp_all add: fl_zero)
    done
qed

theorem draw_rect_centred_witness:
  "draw_rect 100 700 =
     \<lparr> draw_x = Fin (2362379268821577 / 8796093022208), draw_y = Fin 0,
       drawWidth = Fin (3216856876693211 / 17592186044416), drawHeight = Fin 1280 \<rparr> \<and>
   \<bar>2362379268821577 / 8796093022208 -
     (720 - (2362379268821577 / 8796093022208 + 3216856876693211 / 17592186044416))\<bar>
     \<le> (1 / 2 ^ 44 :: rat)"
proof -
  from draw_rect_centred [of 100 700] obtain x y dw dh where
    R: "draw_rect 100 700 =
          \<lparr> draw_x = Fin x, draw_y = Fin y, drawWidth = Fin dw, drawHeight = Fin dh \<rparr>"
    and gap: "\<bar>x - (720 - (x + dw))\<bar> \<le> 1 / 2 ^ 44"
    by auto
  from R draw_rect_100_700 have "x = 2362379268821577 / 8796093022208"
    and "dw = 3216856876693211 / 17592186044416" by simp_all
  with gap draw_rect_100_700 show ?thesis by simp
qed

text \<open>
  C6, as stated, fails. A 100 by 700 image is drawn 182.85714285714283 wide at
  x = 268.57142857142856: the left margin is x, the right margin is 720 minus x minus the
  width, and the right one is larger by \<open>1 / 2 ^ 44\<close>.
\<close>

theorem draw_rect_margins_differ:
  "draw_rect 100 700 =
     \<lparr> draw_x = Fin (2362379268821577 / 8796093022208), draw_y = Fin 0,
       drawWidth = Fin (3216856876693211 / 17592186044416), drawHeight = Fin 1280 \<rparr> \<and>
   (2362379268821577 / 8796093022208 :: rat) \<noteq>
     720 - (2362379268821577 / 8796093022208 + 3216856876693211 / 17592186044416) \<and>
   720 - (2362379268821577 / 8796093022208 + 3216856876693211 / 17592186044416)
     - 2362379268821577 / 8796093022208 = (1 / 2 ^ 44 :: rat)"
  using draw_rect_100_700 by simp

section \<open>The normalized artifact and the upload\<close>

lemma split_on_plain: "c \<notin> set xs \<Longrightarrow> split_on c xs = [xs]"
  by (induction xs) auto

lemma split_on_first:
  "c \<notin> set xs \<Longrightarrow> split_on c (xs @ c # ys) = xs # split_on c ys"
  by (induction xs) auto

lemma split_data_url:
  assumes "c \<notin> set hdr" and "c \<notin> set payload"
  shows "nth_opt (split_on c (hdr @ c # payload)) 1 = Some payload"
  using assms by (simp add: split_on_first split_on_plain nth_opt_def)

text \<open>
  C7. An artifact that \<^verbatim>\<open>processImageTo9x16\<close> resolves to keeps the media type it was
  given, its preview URL is the result of one call of \<^verbatim>\<open>toDataURL\<close>, and its payload is
  cut out of that same string. When that string is a data URL, a header and a payload
  with a comma between them and none inside, as \<^verbatim>\<open>toDataURL\<close> returns, the payload field
  is the payload, and the preview URL is the header, the comma and the payload field.
\<close>

theorem processImageTo9x16_coherent:
  assumes made: "processImageTo9x16 br dataUrl mime = Inr img"
    and url: "previewUrl img = hdr @ '','' @ payload"
    and hdr: "CHR '','' \<notin> set hdr"
    and payload: "CHR '','' \<notin> set payload"
  shows "base64 img = Some payload \<and>
         previewUrl img = hdr @ '','' @ the (base64 img) \<and>
         base64 img = nth_opt (split_on CHR '','' (previewUrl img)) 1 \<and>
         mimeType img = mime \<and>
         (\<exists>cv. previewUrl img = toDataURL br cv mime (Fin (fl (95 / 100))))"
proof -
  from made obtain cv where
    img: "img = \<lparr> base64 = nth_opt (split_on CHR '','' (toDataURL br cv mime (Fin (fl (95 / 100))))) 1,
                   mimeType = mime,
                   previewUrl = toDataURL br cv mime (Fin (fl (95 / 100))) \<rparr>"
    by (auto simp add: processImageTo9x16_def Let_def split: option.splits prod.splits if_splits)
  have derived: "base64 img = nth_opt (split_on CHR '','' (previewUrl img)) 1"
    by (simp add: img)
  have encoded: "\<exists>cv. previewUrl img = toDataURL br cv mime (Fin (fl (95 / 100)))"
    by (rule exI [where x = cv]) (simp add: img)
  have kept: "mimeType img = mime"
    by (simp add: img)
  have payload_eq: "base64 img = Some payload"
    unfolding derived url using split_data_url [OF hdr payload] by simp
  then have whole: "previewUrl img = hdr @ '','' @ the (base64 img)"
    using url by simp
  from payload_eq whole derived kept encoded show ?thesis by blast
qed

theorem processImageTo9x16_coherent_witness:
  "processImageTo9x16 sample_browser ''data:image/png;base64,UEhPVE8='' ''image/png'' =
     Inr \<lparr> base64 = Some ''iVBORw0KGgo='', mimeType = ''image/png'',
           previewUrl = ''data:image/png;base64,iVBORw0KGgo='' \<rparr>"
proof -
  obtain img where made:
    "processImageTo9x16 sample_browser ''data:image/png;base64,UEhPVE8='' ''image/png'' = Inr img"
    and url: "previewUrl img = ''data:image/png;base64'' @ '','' @ ''iVBORw0KGgo=''"
    and mime: "mimeType img = ''image/png''"
    by (simp add: processImageTo9x16_def sample_browser_def Let_def)
  have "CHR '','' \<notin> set ''data:image/png;base64''" "CHR '','' \<notin> set ''iVBORw0KGgo=''"
    by simp_all
  from processImageTo9x16_coherent [OF made url this] have "base64 img = Some ''iVBORw0KGgo=''" by simp
  with url mime have "img = \<lparr> base64 = Some ''iVBORw0KGgo='', mimeType = ''image/png'',
           previewUrl = ''data:image/png;base64,iVBORw0KGgo='' \<rparr>"
    by simp
  with made show ?thesis by simp
qed

text \<open>
  C9. When the file cannot be read, or the processing of what was read rejects, the
  handler's result is the state it started from with a non-empty error message, whatever
  the callback is: the callback is not called, and with either setter as the callback the
  model image and the doll image are the ones from before.
\<close>

theorem fileHandler_failure_frame:
  assumes "readAsDataURL br file = None \<or>
           (\<exists>u msg. readAsDataURL br file = Some u \<and>
                    processImageTo9x16 br u (file_type file) = Inl msg)"
  shows "\<exists>shown. shown \<noteq> [] \<and>
           (\<forall>callback. fileHandler br file callback a = a \<lparr> error := Some shown \<rparr>) \<and>
           modelImage (fileHandler br file setModelImage a) = modelImage a \<and>
           dollImage (fileHandler br file setModelImage a) = dollImage a \<and>
           modelImage (fileHandler br file setDollImage a) = modelImage a \<and>
           dollImage (fileHandler br file setDollImage a) = dollImage a"
  using assms
proof
  assume "readAsDataURL br file = None"
  then show ?thesis
    by (intro exI [where x = "''Could not read the selected file.''"]) (simp add: fileHandler_def)
next
  assume "\<exists>u msg. readAsDataURL br file = Some u \<and>
                  processImageTo9x16 br u (file_type file) = Inl msg"
  then obtain u msg where "readAsDataURL br file = Some u"
    and "processImageTo9x16 br u (file_type file) = Inl msg" by blast
  then show ?thesis
    by (intro exI [where x = "if msg = [] then ''An unknown error occurred during image processing.''
                              else msg"])
       (simp add: fileHandler_def)
qed

theorem fileHandler_failure_frame_witness:
  "fileHandler contextless_browser sample_file setDollImage ready_app =
     ready_app \<lparr> error := Some ''Could not get canvas context'' \<rparr>"
proof -
  have "readAsDataURL contextless_browser sample_file = None \<or>
        (\<exists>u msg. readAsDataURL contextless_browser sample_file = Some u \<and>
           processImageTo9x16 contextless_browser u (file_type sample_file) = Inl msg)"
    by (simp add: contextless_browser_def sample_browser_def processImageTo9x16_def)
  from fileHandler_failure_frame [OF this, of ready_app] obtain shown where
    "\<forall>callback. fileHandler contextless_browser sample_file callback ready_app =
       ready_app \<lparr> error := Some shown \<rparr>" by blast
  then have "fileHandler contextless_browser sample_file setDollImage ready_app =
       ready_app \<lparr> error := Some shown \<rparr>" by blast
  moreover have "error (fileHandler contextless_browser sample_file setDollImage ready_app) =
       Some ''Could not get canvas context''"
    by (simp add: fileHandler_def contextless_browser_def sample_browser_def processImageTo9x16_def)
  ultimately show ?thesis by simp
qed

end
